theory Spec2Isabelle
  imports Complex_Main "HOL-Library.AList"
begin

section \<open>The contact cache (ContactCache.ts)\<close>

text \<open>
  Conventions of the embedding.
  \<^item> A JavaScript string is a \<open>string\<close>; each \<open>char\<close> stands for one UTF-16 code unit
    (code units below 256), so \<open>length\<close> is the \<open>.length\<close> of the source.
  \<^item> A \<open>ContactsData\<close> object is the list of its own enumerable properties in the order
    \<open>Object.entries\<close> yields them.
  \<^item> The \<open>Map\<close> of the cache is an association list in insertion order: \<open>map_of\<close> is
    \<open>Map.get\<close>, \<open>AList.update\<close> is \<open>Map.set\<close> (an existing key keeps its place, a new
    key goes to the end), \<open>AList.delete\<close> is \<open>Map.delete\<close>.
  \<^item> Time stamps are integers (milliseconds); every call of \<open>Date.now()\<close> is a
    parameter of the operation that makes it.
  \<^item> Counters are natural numbers; the megabyte figures and the hit rate are rationals,
    standing for the source's floating-point numbers without rounding.
\<close>

type_synonym ContactsData = "(string \<times> string list) list"

record CacheEntry =
  data :: ContactsData
  timestamp :: int
  accessCount :: nat
  lastAccessed :: int

record CacheConfig =
  enabled :: bool
  ttlMs :: int
  maxMemoryMB :: rat
  maxEntries :: int
  cleanupIntervalMs :: int

record CacheStats =
  hits :: nat
  misses :: nat
  evictions :: nat
  totalQueries :: nat
  currentEntries :: nat
  estimatedMemoryMB :: rat
  hitRate :: rat

text \<open>\<open>Partial<CacheConfig>\<close>: every field may be missing.\<close>

record PartialConfig =
  p_enabled :: "bool option"
  p_ttlMs :: "int option"
  p_maxMemoryMB :: "rat option"
  p_maxEntries :: "int option"
  p_cleanupIntervalMs :: "int option"

text \<open>
  The state of a \<open>ContactCache\<close> object. \<open>cleanupTimer\<close> is \<open>None\<close> for \<open>null\<close> and
  \<open>Some ms\<close> for an armed interval timer firing every \<open>ms\<close> milliseconds.
\<close>

record ContactCache =
  cache :: "(string \<times> CacheEntry) list"
  config :: CacheConfig
  stats :: CacheStats
  cleanupTimer :: "int option"

definition DEFAULT_CONFIG :: CacheConfig where
  "DEFAULT_CONFIG =
     \<lparr>enabled = True, ttlMs = 10 * 60 * 1000, maxMemoryMB = 50, maxEntries = 10,
      cleanupIntervalMs = 60 * 1000\<rparr>"

definition no_config :: PartialConfig where
  "no_config =
     \<lparr>p_enabled = None, p_ttlMs = None, p_maxMemoryMB = None, p_maxEntries = None,
      p_cleanupIntervalMs = None\<rparr>"

text \<open>The object spread \<open>{ ...base, ...newConfig }\<close>.\<close>

definition merge_config :: "CacheConfig \<Rightarrow> PartialConfig \<Rightarrow> CacheConfig" where
  "merge_config base p =
     \<lparr>enabled = (case p_enabled p of None \<Rightarrow> enabled base | Some v \<Rightarrow> v),
      ttlMs = (case p_ttlMs p of None \<Rightarrow> ttlMs base | Some v \<Rightarrow> v),
      maxMemoryMB = (case p_maxMemoryMB p of None \<Rightarrow> maxMemoryMB base | Some v \<Rightarrow> v),
      maxEntries = (case p_maxEntries p of None \<Rightarrow> maxEntries base | Some v \<Rightarrow> v),
      cleanupIntervalMs =
        (case p_cleanupIntervalMs p of None \<Rightarrow> cleanupIntervalMs base | Some v \<Rightarrow> v)\<rparr>"

subsection \<open>Private methods\<close>

definition startCleanupTimer :: "ContactCache \<Rightarrow> ContactCache" where
  "startCleanupTimer c = c\<lparr>cleanupTimer := Some (cleanupIntervalMs (config c))\<rparr>"

definition stopCleanupTimer :: "ContactCache \<Rightarrow> ContactCache" where
  "stopCleanupTimer c = c\<lparr>cleanupTimer := None\<rparr>"

text \<open>
  The inner loop shared by \<open>estimateMemoryUsage\<close> and \<open>shouldEvictForMemory\<close>: two bytes
  for every code unit of every name and of every phone number.
\<close>

definition contactsSize :: "ContactsData \<Rightarrow> nat" where
  "contactsSize d =
     (\<Sum>(name, phones) \<leftarrow> d. length name * 2 + (\<Sum>phone \<leftarrow> phones. length phone * 2))"

definition totalSize :: "(string \<times> CacheEntry) list \<Rightarrow> nat" where
  "totalSize es = (\<Sum>(key, entry) \<leftarrow> es. contactsSize (data entry) + 200)"

definition estimateMemoryUsage :: "ContactCache \<Rightarrow> rat" where
  "estimateMemoryUsage c = of_nat (totalSize (cache c)) / (1024 * 1024)"

definition updateStats :: "ContactCache \<Rightarrow> ContactCache" where
  "updateStats c =
     c\<lparr>stats := (stats c)
        \<lparr>currentEntries := length (cache c),
         estimatedMemoryMB := estimateMemoryUsage c,
         hitRate :=
           (if totalQueries (stats c) > 0
            then (of_nat (hits (stats c)) / of_nat (totalQueries (stats c))) * 100
            else 0)\<rparr>\<rparr>"

definition shouldEvictForMemory :: "ContactsData \<Rightarrow> ContactCache \<Rightarrow> bool" where
  "shouldEvictForMemory newData c =
     (let currentMemory = estimateMemoryUsage c;
          newDataSize = of_nat (contactsSize newData) / (1024 * 1024)
      in currentMemory + newDataSize > maxMemoryMB (config c))"

definition isOverMemoryLimit :: "ContactCache \<Rightarrow> bool" where
  "isOverMemoryLimit c = (estimateMemoryUsage c > maxMemoryMB (config c))"

text \<open>
  The scan of \<open>evictLeastRecentlyUsed\<close>: the pair is \<open>(lruKey, oldestAccess)\<close>, with
  \<open>None\<close> for \<open>null\<close>.
\<close>

fun lru_scan :: "(string \<times> CacheEntry) list \<Rightarrow> string option \<times> int \<Rightarrow> string option \<times> int" where
  "lru_scan [] acc = acc"
| "lru_scan ((key, entry) # rest) (lruKey, oldestAccess) =
     (if lastAccessed entry < oldestAccess
      then lru_scan rest (Some key, lastAccessed entry)
      else lru_scan rest (lruKey, oldestAccess))"

text \<open>
  \<open>now\<close> is the \<open>Date.now()\<close> that seeds \<open>oldestAccess\<close>. The test \<open>if (lruKey)\<close> fails
  for \<open>null\<close> and for the empty string.
\<close>

definition evictLeastRecentlyUsed :: "int \<Rightarrow> ContactCache \<Rightarrow> ContactCache" where
  "evictLeastRecentlyUsed now c =
     (if length (cache c) = 0 then c
      else case fst (lru_scan (cache c) (None, now)) of
             None \<Rightarrow> c
           | Some lruKey \<Rightarrow>
               if lruKey = [] then c
               else c\<lparr>cache := AList.delete lruKey (cache c),
                      stats := (stats c)\<lparr>evictions := evictions (stats c) + 1\<rparr>\<rparr>)"

subsection \<open>Public methods\<close>

definition initial_stats :: CacheStats where
  "initial_stats =
     \<lparr>hits = 0, misses = 0, evictions = 0, totalQueries = 0, currentEntries = 0,
      estimatedMemoryMB = 0, hitRate = 0\<rparr>"

text \<open>The constructor.\<close>

definition new_ContactCache :: "PartialConfig \<Rightarrow> ContactCache" where
  "new_ContactCache p =
     (let c = \<lparr>cache = [], config = merge_config DEFAULT_CONFIG p, stats = initial_stats,
               cleanupTimer = None\<rparr>
      in if enabled (config c) then startCleanupTimer c else c)"

text \<open>\<open>get(key)\<close>; \<open>now\<close> is the \<open>Date.now()\<close> read once the entry is found.\<close>

definition get :: "string \<Rightarrow> int \<Rightarrow> ContactCache \<Rightarrow> ContactsData option \<times> ContactCache" where
  "get key now c0 =
     (let c = c0\<lparr>stats := (stats c0)\<lparr>totalQueries := totalQueries (stats c0) + 1\<rparr>\<rparr> in
      if \<not> enabled (config c)
      then (None, c\<lparr>stats := (stats c)\<lparr>misses := misses (stats c) + 1\<rparr>\<rparr>)
      else case map_of (cache c) key of
        None \<Rightarrow> (None, c\<lparr>stats := (stats c)\<lparr>misses := misses (stats c) + 1\<rparr>\<rparr>)
      | Some entry \<Rightarrow>
          let age = now - timestamp entry in
          if age > ttlMs (config c)
          then (None,
                updateStats
                  (c\<lparr>cache := AList.delete key (cache c),
                     stats := (stats c)\<lparr>misses := misses (stats c) + 1,
                                         evictions := evictions (stats c) + 1\<rparr>\<rparr>))
          else (Some (data entry),
                updateStats
                  (c\<lparr>cache := AList.update key
                                 (entry\<lparr>accessCount := accessCount entry + 1,
                                        lastAccessed := now\<rparr>) (cache c),
                     stats := (stats c)\<lparr>hits := hits (stats c) + 1\<rparr>\<rparr>)))"

text \<open>
  \<open>set(data, key)\<close>; \<open>now\<close> is the \<open>Date.now()\<close> of \<open>set\<close> itself, \<open>now1\<close> and \<open>now2\<close> are
  the ones read by the first and the second call of \<open>evictLeastRecentlyUsed\<close>.
\<close>

definition set_cache ::
  "ContactsData \<Rightarrow> string \<Rightarrow> int \<Rightarrow> int \<Rightarrow> int \<Rightarrow> ContactCache \<Rightarrow> ContactCache" where
  "set_cache d key now now1 now2 c =
     (if \<not> enabled (config c) then c
      else
        let entry = \<lparr>data = d, timestamp = now, accessCount = 1, lastAccessed = now\<rparr>;
            c1 = (if shouldEvictForMemory d c then evictLeastRecentlyUsed now1 c else c);
            c2 = (if int (length (cache c1)) \<ge> maxEntries (config c1)
                  then evictLeastRecentlyUsed now2 c1 else c1)
        in updateStats (c2\<lparr>cache := AList.update key entry (cache c2)\<rparr>))"

text \<open>\<open>invalidate(key?)\<close>: the test \<open>if (key)\<close> fails for a missing and for an empty key.\<close>

definition invalidate :: "string option \<Rightarrow> ContactCache \<Rightarrow> ContactCache" where
  "invalidate key c =
     updateStats
       (case key of
          None \<Rightarrow> c\<lparr>cache := []\<rparr>
        | Some k \<Rightarrow> if k = [] then c\<lparr>cache := []\<rparr> else c\<lparr>cache := AList.delete k (cache c)\<rparr>)"

definition getStats :: "ContactCache \<Rightarrow> CacheStats" where
  "getStats c = stats c"

definition getConfig :: "ContactCache \<Rightarrow> CacheConfig" where
  "getConfig c = config c"

definition updateConfig :: "PartialConfig \<Rightarrow> ContactCache \<Rightarrow> ContactCache" where
  "updateConfig newConfig c0 =
     (let oldEnabled = enabled (config c0);
          c = c0\<lparr>config := merge_config (config c0) newConfig\<rparr>
      in if \<not> oldEnabled \<and> enabled (config c) then startCleanupTimer c
         else if oldEnabled \<and> \<not> enabled (config c) then (stopCleanupTimer c)\<lparr>cache := []\<rparr>
         else c)"

text \<open>
  The first loop of \<open>cleanup\<close>: it walks the entries and deletes the expired ones from the
  map it is iterating.
\<close>

definition remove_expired :: "int \<Rightarrow> ContactCache \<Rightarrow> ContactCache" where
  "remove_expired now c =
     fold (\<lambda>(key, entry) c'.
             if now - timestamp entry > ttlMs (config c')
             then c'\<lparr>cache := AList.delete key (cache c'),
                     stats := (stats c')\<lparr>evictions := evictions (stats c') + 1\<rparr>\<rparr>
             else c')
          (cache c) c"

text \<open>
  The second loop, \<open>while (this.isOverMemoryLimit()) this.evictLeastRecentlyUsed()\<close>.
  \<open>clock i\<close> is the \<open>Date.now()\<close> read by the eviction of round \<open>i\<close>. The loop has no
  bound of its own, so the model is a partial function: \<open>None\<close> means that it never ends.
\<close>

partial_function (option) enforce_memory ::
  "(nat \<Rightarrow> int) \<Rightarrow> nat \<Rightarrow> ContactCache \<Rightarrow> ContactCache option" where
  "enforce_memory clock i c =
     (if isOverMemoryLimit c
      then enforce_memory clock (Suc i) (evictLeastRecentlyUsed (clock i) c)
      else Some c)"

definition cleanup :: "int \<Rightarrow> (nat \<Rightarrow> int) \<Rightarrow> ContactCache \<Rightarrow> ContactCache option" where
  "cleanup now clock c =
     (if \<not> enabled (config c) then Some c
      else map_option updateStats (enforce_memory clock 0 (remove_expired now c)))"

definition destroy :: "ContactCache \<Rightarrow> ContactCache" where
  "destroy c = updateStats ((stopCleanupTimer c)\<lparr>cache := []\<rparr>)"

subsection \<open>The states a cache object can be in\<close>

text \<open>
  Every state is built by the constructor and changed by the public methods only; the last
  rule is a caller that writes into the snapshot object \<open>get\<close> handed out, which is the
  object the entry holds.
\<close>

inductive reachable :: "ContactCache \<Rightarrow> bool" where
  r_new: "reachable (new_ContactCache p)"
| r_get: "reachable c \<Longrightarrow> reachable (snd (get key now c))"
| r_set: "reachable c \<Longrightarrow> reachable (set_cache d key now now1 now2 c)"
| r_invalidate: "reachable c \<Longrightarrow> reachable (invalidate k c)"
| r_updateConfig: "reachable c \<Longrightarrow> reachable (updateConfig p c)"
| r_cleanup: "reachable c \<Longrightarrow> cleanup now clock c = Some c' \<Longrightarrow> reachable c'"
| r_destroy: "reachable c \<Longrightarrow> reachable (destroy c)"
| r_mutate: "reachable c \<Longrightarrow> map_of (cache c) key = Some entry \<Longrightarrow>
             reachable (c\<lparr>cache := AList.update key (entry\<lparr>data := d\<rparr>) (cache c)\<rparr>)"

subsection \<open>Sequences of calls\<close>

text \<open>Sequences of \<open>get\<close> and \<open>set\<close> calls, and the calls that end in \<open>updateStats\<close>.\<close>

datatype cache_op = OpGet string int | OpSet ContactsData string int int int

fun apply_op :: "cache_op \<Rightarrow> ContactCache \<Rightarrow> ContactCache" where
  "apply_op (OpGet key now) c = snd (get key now c)"
| "apply_op (OpSet d key now now1 now2) c = set_cache d key now now1 now2 c"

definition run_ops :: "cache_op list \<Rightarrow> ContactCache \<Rightarrow> ContactCache" where
  "run_ops ops c = fold apply_op ops c"

fun recomputes :: "cache_op \<Rightarrow> ContactCache \<Rightarrow> bool" where
  "recomputes (OpGet key now) c = (enabled (config c) \<and> map_of (cache c) key \<noteq> None)"
| "recomputes (OpSet d key now now1 now2) c = enabled (config c)"

subsection \<open>The eviction in the words of the specification\<close>


section \<open>The query layer (contacts.ts, ValidationUtils.ts)\<close>

subsection \<open>Strings and objects of the host language\<close>

text \<open>White space and line terminators (\<open>trim\<close>, \<open>\s\<close>) among the code units below 256.\<close>

definition is_space :: "char \<Rightarrow> bool" where
  "is_space c = (c \<in> set [CHR 0x09, CHR 0x0A, CHR 0x0B, CHR 0x0C, CHR 0x0D, CHR 0x20, CHR 0xA0])"

definition is_digit :: "char \<Rightarrow> bool" where
  "is_digit c = (c \<in> set ''0123456789'')"

definition trim :: "string \<Rightarrow> string" where
  "trim s = rev (dropWhile is_space (rev (dropWhile is_space s)))"

definition startsWith :: "string \<Rightarrow> string \<Rightarrow> bool" where
  "startsWith s p = (take (length p) s = p)"

fun includes_str :: "string \<Rightarrow> string \<Rightarrow> bool" where
  "includes_str [] sub = (sub = [])"
| "includes_str (c # cs) sub = (startsWith (c # cs) sub \<or> includes_str cs sub)"

text \<open>\<open>toLowerCase\<close> on code units below 256: A-Z, and the Latin-1 capitals except U+00D7.\<close>

definition lower_char :: "char \<Rightarrow> char" where
  "lower_char c =
     (let n = of_char c :: nat
      in if (65 \<le> n \<and> n \<le> 90) \<or> (192 \<le> n \<and> n \<le> 222 \<and> n \<noteq> 215) then char_of (n + 32) else c)"

definition toLowerCase :: "string \<Rightarrow> string" where
  "toLowerCase s = map lower_char s"

text \<open>
  Property keys that are array indices (canonical decimal numerals up to \<open>2^32 - 2\<close>) come
  first in \<open>Object.entries\<close>, in ascending order; the other keys follow in insertion order.
\<close>

definition index_value :: "string \<Rightarrow> nat" where
  "index_value s = foldl (\<lambda>n c. 10 * n + (of_char c - 48)) 0 s"

definition is_array_index :: "string \<Rightarrow> bool" where
  "is_array_index s =
     (s \<noteq> [] \<and> list_all is_digit s \<and> (length s = 1 \<or> hd s \<noteq> CHR ''0'')
      \<and> length s \<le> 10 \<and> index_value s \<le> 4294967294)"

fun insert_index :: "string \<Rightarrow> string list \<Rightarrow> ContactsData \<Rightarrow> ContactsData" where
  "insert_index k v [] = [(k, v)]"
| "insert_index k v ((k', v') # rest) =
     (if is_array_index k' \<and> index_value k' < index_value k
      then (k', v') # insert_index k v rest
      else (k, v) # (k', v') # rest)"

text \<open>
  The assignment \<open>obj[k] = v\<close> on a plain object: an own property keeps its place and gets
  the new value; otherwise the key \<open>__proto__\<close> reaches the setter of \<open>Object.prototype\<close>
  and creates no property; otherwise the property is created.
\<close>

definition obj_assign :: "string \<Rightarrow> string list \<Rightarrow> ContactsData \<Rightarrow> ContactsData" where
  "obj_assign k v d =
     (if map_of d k \<noteq> None then AList.update k v d
      else if k = ''__proto__'' then d
      else if is_array_index k then insert_index k v d
      else d @ [(k, v)])"

text \<open>\<open>[...new Set(formats)]\<close>: the first occurrence of each element, in order.\<close>

definition dedupe :: "string list \<Rightarrow> string list" where
  "dedupe xs = rev (remdups (rev xs))"

subsection \<open>ValidationUtils.ts\<close>

datatype error = Error string

definition validateContactName :: "string \<Rightarrow> error + string" where
  "validateContactName name =
     (let trimmed = trim name in
      if length trimmed = 0 then Inl (Error ''Contact name cannot be empty'')
      else if length trimmed > 200
      then Inl (Error ''Contact name is too long (maximum 200 characters)'')
      else if list_ex (\<lambda>c. let n = of_char c :: nat
                           in n \<le> 8 \<or> n = 11 \<or> n = 12 \<or> (14 \<le> n \<and> n \<le> 31) \<or> n = 127) trimmed
      then Inl (Error ''Contact name contains invalid control characters'')
      else Inr trimmed)"

definition validatePhoneNumber :: "string \<Rightarrow> error + string" where
  "validatePhoneNumber phoneNumber =
     (let trimmed = trim phoneNumber in
      if length trimmed = 0 then Inl (Error ''Phone number cannot be empty'')
      else if \<not> list_all (\<lambda>c. c = CHR ''+'' \<or> is_digit c \<or> c = CHR ''-'' \<or> c = CHR ''(''
                                \<or> c = CHR '')'' \<or> is_space c \<or> c = CHR ''.'') trimmed
      then Inl (Error ''Phone number contains invalid characters'')
      else if length trimmed > 30
      then Inl (Error ''Phone number is too long (maximum 30 characters)'')
      else Inr trimmed)"

subsection \<open>The Contacts application\<close>

text \<open>
  What the scripting bridge shows of the address book. Reading the name or the phones of a
  contact may raise (\<open>None\<close>); a missing name is the empty string. \<open>access\<close> tells whether
  the AppleScript \<open>count every person\<close> succeeds, \<open>jxa\<close> whether a \<open>run\<close> call succeeds as
  a whole. \<open>applescript_numbers\<close> is the outcome of \<open>getAllNumbersAppleScript\<close>, the
  AppleScript enumeration and the parsing of its output.
\<close>

record person =
  pname :: "string option"
  pphones :: "string list option"

record directory =
  access :: bool
  jxa :: bool
  people :: "person list"
  applescript_numbers :: "error + ContactsData"

definition access_message :: string where
  "access_message = ''Cannot access Contacts app. Please grant access in System Preferences > Security & Privacy > Privacy > Contacts.''"

definition checkContactsAccess :: "directory \<Rightarrow> error + bool" where
  "checkContactsAccess dir =
     (if access dir then Inr True
      else Inl (Error access_message))"

definition getAllNumbersAppleScript :: "directory \<Rightarrow> error + ContactsData" where
  "getAllNumbersAppleScript dir = applescript_numbers dir"

subsection \<open>The global cache instance\<close>

text \<open>\<open>getContactCache()\<close>, called without a configuration; \<open>None\<close> is \<open>globalCache = null\<close>.\<close>

definition getContactCache :: "ContactCache option \<Rightarrow> ContactCache" where
  "getContactCache g = (case g of None \<Rightarrow> new_ContactCache no_config | Some c \<Rightarrow> c)"

subsection \<open>getAllNumbers\<close>

text \<open>The loop of the JXA script of \<open>getAllNumbers\<close>; a contact that raises is skipped.\<close>

fun jxa_all_numbers :: "person list \<Rightarrow> ContactsData \<Rightarrow> ContactsData" where
  "jxa_all_numbers [] phoneNumbers = phoneNumbers"
| "jxa_all_numbers (p # ps) phoneNumbers =
     (case pname p of
        None \<Rightarrow> jxa_all_numbers ps phoneNumbers
      | Some name \<Rightarrow>
          (case pphones p of
             None \<Rightarrow> jxa_all_numbers ps phoneNumbers
           | Some phoneValues \<Rightarrow>
               if name \<noteq> [] \<and> length phoneValues > 0
               then jxa_all_numbers ps (obj_assign name phoneValues phoneNumbers)
               else jxa_all_numbers ps phoneNumbers))"

definition wrap_error :: "string \<Rightarrow> error \<Rightarrow> error" where
  "wrap_error prefix e = (case e of Error message \<Rightarrow> Error (prefix @ message))"

text \<open>
  \<open>getAllNumbers\<close>. The result is the value or the error thrown, and the global cache as
  the call leaves it. \<open>t_get\<close> is the clock of the \<open>get\<close>, the other three are those of the
  \<open>set\<close>. When the JXA script yields nothing and the fallback raises, the handler of the
  inner \<open>try\<close> runs the fallback once more; its outcome is taken to be the same, so the
  error is the one that leaves the function.
\<close>

definition getAllNumbers ::
  "directory \<Rightarrow> int \<Rightarrow> int \<Rightarrow> int \<Rightarrow> int \<Rightarrow> ContactCache option
     \<Rightarrow> (error + ContactsData) \<times> ContactCache option" where
  "getAllNumbers dir t_get t_set t_ev1 t_ev2 g =
     (let (cachedData, c) = get ''allContacts'' t_get (getContactCache g) in
      case cachedData of
        Some d \<Rightarrow> (Inr d, Some c)
      | None \<Rightarrow>
          (case checkContactsAccess dir of
             Inl e \<Rightarrow> (Inl (wrap_error ''Error accessing contacts: '' e), Some c)
           | Inr ok \<Rightarrow>
               let result =
                     (if jxa dir
                      then let nums = jxa_all_numbers (people dir) []
                           in if length nums = 0 then getAllNumbersAppleScript dir else Inr nums
                      else getAllNumbersAppleScript dir)
               in case result of
                    Inl e \<Rightarrow> (Inl (wrap_error ''Error accessing contacts: '' e), Some c)
                  | Inr contactsData \<Rightarrow>
                      if length contactsData > 0
                      then (Inr contactsData,
                            Some (set_cache contactsData ''allContacts'' t_set t_ev1 t_ev2 c))
                      else (Inr contactsData, Some c)))"

subsection \<open>findNumber\<close>

text \<open>The loop of the JXA script of \<open>findNumber\<close>.\<close>

fun jxa_find_number :: "person list \<Rightarrow> string \<Rightarrow> string list" where
  "jxa_find_number [] searchName = []"
| "jxa_find_number (p # ps) searchName =
     (case pname p of
        None \<Rightarrow> jxa_find_number ps searchName
      | Some personName \<Rightarrow>
          if personName \<noteq> [] \<and> includes_str (toLowerCase personName) (toLowerCase searchName)
          then (case pphones p of
                  None \<Rightarrow> jxa_find_number ps searchName
                | Some phoneValues \<Rightarrow>
                    if length phoneValues > 0 then phoneValues
                    else jxa_find_number ps searchName)
          else jxa_find_number ps searchName)"

text \<open>
  \<open>findNumberFuzzyFallback\<close> catches every error and answers \<open>[]\<close>. \<open>t_fuzzy\<close> is the
  clock of its own \<open>get\<close>; the other four go to \<open>getAllNumbers\<close>.
\<close>

definition findNumberFuzzyFallback ::
  "directory \<Rightarrow> string \<Rightarrow> int \<Rightarrow> int \<Rightarrow> int \<Rightarrow> int \<Rightarrow> int \<Rightarrow> ContactCache option
     \<Rightarrow> string list \<times> ContactCache option" where
  "findNumberFuzzyFallback dir sanitizedName t_fuzzy t_get t_set t_ev1 t_ev2 g =
     (let (cachedData, c) = get ''allContacts'' t_fuzzy (getContactCache g);
          (loaded, g') = (case cachedData of
                            Some d \<Rightarrow> (Inr d, Some c)
                          | None \<Rightarrow> getAllNumbers dir t_get t_set t_ev1 t_ev2 (Some c))
      in case loaded of
           Inl e \<Rightarrow> ([], g')
         | Inr allNumbers \<Rightarrow>
             (case find (\<lambda>(personName, numbers).
                          includes_str (toLowerCase personName) (toLowerCase sanitizedName)) allNumbers of
                None \<Rightarrow> ([], g')
              | Some (closestMatch, numbers) \<Rightarrow>
                  if closestMatch \<noteq> [] then (numbers, g') else ([], g')))"

definition findNumber ::
  "directory \<Rightarrow> string \<Rightarrow> int \<Rightarrow> int \<Rightarrow> int \<Rightarrow> int \<Rightarrow> int \<Rightarrow> ContactCache option
     \<Rightarrow> (error + string list) \<times> ContactCache option" where
  "findNumber dir name t_fuzzy t_get t_set t_ev1 t_ev2 g =
     (case validateContactName name of
        Inl e \<Rightarrow> (Inl (wrap_error ''Error finding contact: '' e), g)
      | Inr sanitizedName \<Rightarrow>
          (case checkContactsAccess dir of
             Inl e \<Rightarrow> (Inl (wrap_error ''Error finding contact: '' e), g)
           | Inr ok \<Rightarrow>
               if jxa dir
               then let phones = jxa_find_number (people dir) sanitizedName
                    in if length phones = 0
                       then (let (r, g') = findNumberFuzzyFallback dir sanitizedName
                                             t_fuzzy t_get t_set t_ev1 t_ev2 g
                             in (Inr r, g'))
                       else (Inr phones, g)
               else (let (r, g') = findNumberFuzzyFallback dir sanitizedName
                                     t_fuzzy t_get t_set t_ev1 t_ev2 g
                     in (Inr r, g'))))"

subsection \<open>findContactByPhone\<close>

text \<open>The replacement \<open>replace(/[^0-9+]/g, '')\<close>.\<close>

definition strip_formatting :: "string \<Rightarrow> string" where
  "strip_formatting s = filter (\<lambda>c. is_digit c \<or> c = CHR ''+'') s"

definition normalizePhoneNumber :: "string \<Rightarrow> string list" where
  "normalizePhoneNumber phoneNumber =
     (let cleaned = strip_formatting phoneNumber;
          formats1 = [cleaned];
          formats2 = (if startsWith cleaned ''+1'' then formats1 @ [drop 2 cleaned] else formats1);
          formats3 = (if \<not> startsWith cleaned ''+'' \<and> length cleaned = 10
                      then formats2 @ [''+1'' @ cleaned] else formats2);
          formats4 = (if \<not> startsWith cleaned ''+'' \<and> length cleaned > 0
                      then formats3 @ [''+'' @ cleaned] else formats3)
      in dedupe formats4)"

text \<open>
  The comparison of a stored number, stripped, with one search form; the same four tests
  stand in the cached search and in the direct scan.
\<close>

definition phone_matches :: "string \<Rightarrow> string \<Rightarrow> bool" where
  "phone_matches num searchNumber =
     (num = searchNumber \<or> num = ''+'' @ searchNumber \<or> num = ''+1'' @ searchNumber
      \<or> ''+1'' @ num = searchNumber)"

text \<open>The two nested loops of \<open>findContactByPhoneCachedSearch\<close> over one snapshot.\<close>

definition search_snapshot :: "string list \<Rightarrow> ContactsData \<Rightarrow> string option" where
  "search_snapshot searchNumbers allContacts =
     map_option fst
       (find (\<lambda>(name, numbers).
                list_ex (\<lambda>searchNumber.
                           list_ex (\<lambda>num. phone_matches num searchNumber)
                                   (map strip_formatting numbers))
                        searchNumbers)
             allContacts)"

definition findContactByPhoneCachedSearch ::
  "string list \<Rightarrow> int \<Rightarrow> ContactCache option \<Rightarrow> string option \<times> ContactCache option" where
  "findContactByPhoneCachedSearch searchNumbers t_search g =
     (let (allContacts, c) = get ''allContacts'' t_search (getContactCache g) in
      case allContacts of
        None \<Rightarrow> (None, Some c)
      | Some d \<Rightarrow> (search_snapshot searchNumbers d, Some c))"

text \<open>
  The loop of the direct JXA scan. Reading the phones may raise, and so may reading the name
  once a number has matched; either way the contact is skipped.
\<close>

fun phone_scan :: "person list \<Rightarrow> string list \<Rightarrow> (string \<times> string list) option" where
  "phone_scan [] searchFormats = None"
| "phone_scan (p # ps) searchFormats =
     (case pphones p of
        None \<Rightarrow> phone_scan ps searchFormats
      | Some phones \<Rightarrow>
          if list_ex (\<lambda>phoneValue.
                        list_ex (\<lambda>searchNumber.
                                   phone_matches (strip_formatting phoneValue) searchNumber)
                                searchFormats)
                     phones
          then (case pname p of
                  None \<Rightarrow> phone_scan ps searchFormats
                | Some personName \<Rightarrow> Some (personName, phones))
          else phone_scan ps searchFormats)"

text \<open>
  \<open>cachePhoneSearchResult\<close>. The snapshot \<open>get\<close> returns is the object the entry holds, so
  the assignment changes the entry before \<open>set\<close> runs (entries are taken not to share a
  snapshot object with another entry).
\<close>

definition cachePhoneSearchResult ::
  "string \<Rightarrow> string list \<Rightarrow> int \<Rightarrow> int \<Rightarrow> int \<Rightarrow> int \<Rightarrow> ContactCache option
     \<Rightarrow> ContactCache option" where
  "cachePhoneSearchResult contactName phoneNumbers t_merge t_set t_ev1 t_ev2 g =
     (let (existingData, c) = get ''allContacts'' t_merge (getContactCache g) in
      case existingData of
        None \<Rightarrow>
          Some (set_cache (obj_assign contactName phoneNumbers []) ''allContacts''
                  t_set t_ev1 t_ev2 c)
      | Some d \<Rightarrow>
          let d' = obj_assign contactName phoneNumbers d;
              c' = c\<lparr>cache := map (\<lambda>(key, entry).
                                     if key = ''allContacts'' then (key, entry\<lparr>data := d'\<rparr>)
                                     else (key, entry)) (cache c)\<rparr>
          in Some (set_cache d' ''allContacts'' t_set t_ev1 t_ev2 c'))"

text \<open>
  \<open>findContactByPhoneOptimized\<close>: the answer, the global cache afterwards, and the number
  of direct scans of the address book made (runs of the JXA phone search; the access check,
  which every call makes first, is not counted). Every error is caught and answered with
  \<open>null\<close>.
\<close>

definition findContactByPhoneOptimized ::
  "directory \<Rightarrow> string \<Rightarrow> int \<Rightarrow> int \<Rightarrow> int \<Rightarrow> int \<Rightarrow> int \<Rightarrow> ContactCache option
     \<Rightarrow> (error + string option) \<times> ContactCache option \<times> nat" where
  "findContactByPhoneOptimized dir phoneNumber t_search t_merge t_set t_ev1 t_ev2 g =
     (case validatePhoneNumber phoneNumber of
        Inl e \<Rightarrow> (Inr None, g, 0)
      | Inr sanitizedPhoneNumber \<Rightarrow>
          (case checkContactsAccess dir of
             Inl e \<Rightarrow> (Inr None, g, 0)
           | Inr ok \<Rightarrow>
               let searchNumbers = normalizePhoneNumber sanitizedPhoneNumber;
                   (cacheResult, g1) = findContactByPhoneCachedSearch searchNumbers t_search g
               in if cacheResult \<noteq> None \<and> cacheResult \<noteq> Some []
                  then (Inr cacheResult, g1, 0)
                  else if \<not> jxa dir then (Inr None, g1, 1)
                  else (case phone_scan (people dir) searchNumbers of
                          None \<Rightarrow> (Inr None, g1, 1)
                        | Some (name, phones) \<Rightarrow>
                            if name \<noteq> []
                            then (Inr (Some name),
                                  cachePhoneSearchResult name phones t_merge t_set t_ev1 t_ev2 g1,
                                  1)
                            else (Inr None, g1, 1))))"

definition findContactByPhone ::
  "directory \<Rightarrow> string \<Rightarrow> int \<Rightarrow> int \<Rightarrow> int \<Rightarrow> int \<Rightarrow> int \<Rightarrow> ContactCache option
     \<Rightarrow> (error + string option) \<times> ContactCache option \<times> nat" where
  "findContactByPhone dir phoneNumber t_search t_merge t_set t_ev1 t_ev2 g =
     (case findContactByPhoneOptimized dir phoneNumber t_search t_merge t_set t_ev1 t_ev2 g of
        (Inl e, g', n) \<Rightarrow> (Inr None, g', n)
      | (Inr r, g', n) \<Rightarrow> (Inr r, g', n))"

text \<open>
  Whether a search for \<open>searchInput\<close> accepts the stored number \<open>stored\<close>: some search form
  of the one passes the comparison with the other, stripped.
\<close>

definition search_finds :: "string \<Rightarrow> string \<Rightarrow> bool" where
  "search_finds searchInput stored =
     list_ex (\<lambda>searchNumber. phone_matches (strip_formatting stored) searchNumber)
             (normalizePhoneNumber searchInput)"

text \<open>A stripped number that carries \<open>+\<close> in front only, if at all.\<close>

definition plain_number :: "string \<Rightarrow> bool" where
  "plain_number n = (CHR ''+'' \<notin> set (tl n))"

section \<open>Stores, address books and inputs used below\<close>

text \<open>A store with a time to live of 100 ms holding one snapshot written at time 0.\<close>

definition ttl_store :: ContactCache where
  "ttl_store = set_cache [(''Alice'', [''123''])] ''k'' 0 0 0
                 (new_ContactCache (no_config\<lparr>p_ttlMs := Some 100\<rparr>))"

text \<open>A store for at most two entries, empty and then holding \<open>k1\<close> and \<open>k2\<close>.\<close>

definition lru_store0 :: ContactCache where
  "lru_store0 = new_ContactCache (no_config\<lparr>p_maxEntries := Some 2\<rparr>)"

definition lru_store2 :: ContactCache where
  "lru_store2 = set_cache [(''Bob'', [''456''])] ''k2'' 2 2 2
                  (set_cache [(''Alice'', [''123''])] ''k1'' 1 1 1 lru_store0)"


text \<open>
  More stores: two entries written in the same millisecond; one entry under the empty key
  with a ceiling below the 200 bytes of a single entry; one entry under the default
  configuration. \<open>disable\<close> is the argument \<open>{enabled: false}\<close>.
\<close>

definition same_ms_store :: ContactCache where
  "same_ms_store = set_cache [(''Bob'', [''456''])] ''k2'' 5 5 5
                    (set_cache [(''Alice'', [''123''])] ''k1'' 5 5 5 lru_store0)"

definition stuck_store :: ContactCache where
  "stuck_store = set_cache [] [] 0 0 0
                   (new_ContactCache (no_config\<lparr>p_maxMemoryMB := Some (1 / 10000)\<rparr>))"

definition one_entry_store :: ContactCache where
  "one_entry_store = set_cache [(''Alice'', [''123''])] ''k'' 0 0 0 (new_ContactCache no_config)"

definition disable :: PartialConfig where
  "disable = no_config\<lparr>p_enabled := Some False\<rparr>"

text \<open>
  A snapshot with a British and a US number; a contact, a record that cannot be read, an
  address book holding both, the same with access denied, an address book holding the
  contact alone, and a disabled cache.
\<close>

definition us_snapshot :: ContactsData where
  "us_snapshot = [(''Alice'', [''+44 20 7946 0958'']), (''Bob'', [''(555) 123-4567''])]"

definition bob :: person where
  "bob = \<lparr>pname = Some ''Bob'', pphones = Some [''555-1234'']\<rparr>"

definition unreadable :: person where
  "unreadable = \<lparr>pname = None, pphones = None\<rparr>"

definition open_dir :: directory where
  "open_dir = \<lparr>access = True, jxa = True, people = [unreadable, bob], applescript_numbers = Inr []\<rparr>"

definition denied_dir :: directory where
  "denied_dir = open_dir\<lparr>access := False\<rparr>"



section \<open>Properties of the cache\<close>

subsection \<open>What the operations leave unchanged\<close>

lemma config_updateStats [simp]: "config (updateStats c) = config c"
  and cache_updateStats [simp]: "cache (updateStats c) = cache c"
  and timer_updateStats [simp]: "cleanupTimer (updateStats c) = cleanupTimer c"
  by (simp_all add: updateStats_def)

lemma config_evict [simp]: "config (evictLeastRecentlyUsed now c) = config c"
  by (simp add: evictLeastRecentlyUsed_def split: option.splits)

lemma config_remove_expired_aux:
  "config (fold (\<lambda>(key, entry) c'.
             if now - timestamp entry > ttlMs (config c')
             then c'\<lparr>cache := AList.delete key (cache c'),
                     stats := (stats c')\<lparr>evictions := evictions (stats c') + 1\<rparr>\<rparr>
             else c') es c) = config c"
  by (induction es arbitrary: c) (auto split: prod.splits)

lemma config_remove_expired [simp]: "config (remove_expired now c) = config c"
  unfolding remove_expired_def by (rule config_remove_expired_aux)

lemma config_enforce_memory:
  assumes "enforce_memory clock i c = Some c'"
  shows "config c' = config c"
  using assms
proof (induction clock i c c' rule: enforce_memory.raw_induct [rotated 1, consumes 1])
  case (1 enforce clock i c c')
  show ?case
  proof (cases "isOverMemoryLimit c")
    case True
    with 1 have "config c' = config (evictLeastRecentlyUsed (clock i) c)" by simp
    then show ?thesis by simp
  next
    case False
    with 1 show ?thesis by simp
  qed
qed

lemma config_cleanup: "cleanup now clock c = Some c' \<Longrightarrow> config c' = config c"
  by (auto simp: cleanup_def dest: config_enforce_memory split: if_splits)

lemma reachable_inv: "reachable c \<Longrightarrow> enabled (config c) \<or> cache c = []"
proof (induction rule: reachable.induct)
  case (r_new p)
  then show ?case by (simp add: new_ContactCache_def startCleanupTimer_def Let_def)
next
  case (r_get c key now)
  then show ?case by (auto simp: get_def Let_def split: option.splits)
next
  case (r_set c d key now now1 now2)
  then show ?case by (auto simp: set_cache_def Let_def)
next
  case (r_invalidate c k)
  then show ?case by (auto simp: invalidate_def split: option.splits)
next
  case (r_updateConfig c p)
  then show ?case by (auto simp: updateConfig_def Let_def startCleanupTimer_def stopCleanupTimer_def)
next
  case (r_cleanup c now clock c')
  then show ?case by (auto simp: cleanup_def split: if_splits dest: config_enforce_memory)
next
  case (r_destroy c)
  then show ?case by (simp add: destroy_def)
next
  case (r_mutate c key entry d)
  then show ?case by auto
qed

subsection \<open>C1: expiry on read\<close>

lemma ttl_store_eval:
  "cache ttl_store = [(''k'', \<lparr>data = [(''Alice'', [''123''])], timestamp = 0, accessCount = 1, lastAccessed = 0\<rparr>)]"
  "ttlMs (config ttl_store) = 100"
  by (simp_all add: ttl_store_def set_cache_def new_ContactCache_def no_config_def merge_config_def
      DEFAULT_CONFIG_def startCleanupTimer_def Let_def shouldEvictForMemory_def
      estimateMemoryUsage_def totalSize_def contactsSize_def initial_stats_def)

text \<open>
  C1. In any state a cache object can reach, a \<open>get\<close> of a key whose entry is older than
  \<open>ttlMs\<close> returns nothing, deletes the entry, and adds one to the miss counter and one to
  the eviction counter. The time of the last read plays no part: \<open>lastAccessed\<close> is
  arbitrary here, and the entry stays expired whatever read \<open>now0\<close> came before.
\<close>

theorem get_expired_entry:
  assumes "reachable c" and "map_of (cache c) key = Some entry"
    and "now - timestamp entry > ttlMs (config c)"
  shows "fst (get key now c) = None
       \<and> cache (snd (get key now c)) = AList.delete key (cache c)
       \<and> map_of (cache (snd (get key now c))) key = None
       \<and> misses (stats (snd (get key now c))) = misses (stats c) + 1
       \<and> evictions (stats (snd (get key now c))) = evictions (stats c) + 1
       \<and> (\<forall>now0. fst (get key now (snd (get key now0 c))) = None)"
proof -
  from assms(1,2) have en: "enabled (config c)"
    using reachable_inv by fastforce
  have g: "get key now c =
      (None, updateStats
         (c\<lparr>cache := AList.delete key (cache c),
            stats := (stats c)\<lparr>totalQueries := totalQueries (stats c) + 1,
                               misses := misses (stats c) + 1,
                               evictions := evictions (stats c) + 1\<rparr>\<rparr>))"
    using en assms(2,3) by (simp add: get_def Let_def)
  have later: "fst (get key now (snd (get key now0 c))) = None" for now0
  proof (cases "now0 - timestamp entry > ttlMs (config c)")
    case True
    then have "map_of (cache (snd (get key now0 c))) key = None"
      using en assms(2) by (simp add: get_def Let_def delete_conv')
    moreover have "config (snd (get key now0 c)) = config c"
      using en assms(2) True by (simp add: get_def Let_def)
    ultimately show ?thesis using en by (simp add: get_def [of key now] Let_def)
  next
    case False
    then have "map_of (cache (snd (get key now0 c))) key
        = Some (entry\<lparr>accessCount := accessCount entry + 1, lastAccessed := now0\<rparr>)"
      using en assms(2) by (simp add: get_def Let_def update_conv')
    moreover have "config (snd (get key now0 c)) = config c"
      using en assms(2) False by (simp add: get_def Let_def)
    ultimately show ?thesis using en assms(3) by (simp add: get_def [of key now] Let_def)
  qed
  show ?thesis using g later by (simp add: updateStats_def delete_conv')
qed

theorem get_expired_entry_witness:
  "fst (get ''k'' 150 ttl_store) = None
   \<and> cache (snd (get ''k'' 150 ttl_store)) = []
   \<and> misses (stats (snd (get ''k'' 150 ttl_store))) = misses (stats ttl_store) + 1
   \<and> evictions (stats (snd (get ''k'' 150 ttl_store))) = evictions (stats ttl_store) + 1"
proof -
  have r: "reachable ttl_store" unfolding ttl_store_def by (rule r_set [OF r_new])
  have m: "map_of (cache ttl_store) ''k'' =
     Some \<lparr>data = [(''Alice'', [''123''])], timestamp = 0, accessCount = 1, lastAccessed = 0\<rparr>"
    by (simp add: ttl_store_eval)
  have t: "150 - timestamp \<lparr>data = [(''Alice'', [''123''])], timestamp = 0, accessCount = 1, lastAccessed = 0\<rparr>
            > ttlMs (config ttl_store)"
    by (simp add: ttl_store_eval)
  show ?thesis using get_expired_entry [OF r m t] by (simp add: ttl_store_eval)
qed

subsection \<open>The least recently used entry\<close>

lemma lru_scan_none:
  "\<forall>(k, e) \<in> set es. old \<le> lastAccessed e \<Longrightarrow> lru_scan es (lk, old) = (lk, old)"
  by (induction es) auto

lemma lru_scan_first_min:
  "\<exists>(k, e) \<in> set es. lastAccessed e < old \<Longrightarrow>
   \<exists>pre k e post. es = pre @ (k, e) # post
      \<and> lru_scan es (lk, old) = (Some k, lastAccessed e)
      \<and> lastAccessed e < old
      \<and> (\<forall>(k', e') \<in> set pre. lastAccessed e < lastAccessed e')
      \<and> (\<forall>(k', e') \<in> set post. lastAccessed e \<le> lastAccessed e')"
proof (induction es arbitrary: lk old)
  case Nil
  then show ?case by simp
next
  case (Cons x es)
  obtain k0 e0 where x: "x = (k0, e0)" by (cases x)
  show ?case
  proof (cases "lastAccessed e0 < old")
    case True
    show ?thesis
    proof (cases "\<exists>(k, e) \<in> set es. lastAccessed e < lastAccessed e0")
      case True
      from Cons.IH [OF this, of "Some k0"]
      obtain pre k e post where h: "es = pre @ (k, e) # post"
        "lru_scan es (Some k0, lastAccessed e0) = (Some k, lastAccessed e)"
        "lastAccessed e < lastAccessed e0"
        "\<forall>(k', e') \<in> set pre. lastAccessed e < lastAccessed e'"
        "\<forall>(k', e') \<in> set post. lastAccessed e \<le> lastAccessed e'"
        by blast
      have "x # es = (x # pre) @ (k, e) # post" using h(1) by simp
      moreover have "lru_scan (x # es) (lk, old) = (Some k, lastAccessed e)"
        using h(2) \<open>lastAccessed e0 < old\<close> x by simp
      moreover have "lastAccessed e < old" using h(3) \<open>lastAccessed e0 < old\<close> by simp
      moreover have "\<forall>(k', e') \<in> set (x # pre). lastAccessed e < lastAccessed e'"
        using h(3,4) x by auto
      ultimately show ?thesis using h(5) by blast
    next
      case False
      then have a: "\<forall>(k, e) \<in> set es. lastAccessed e0 \<le> lastAccessed e" by auto
      have "lru_scan (x # es) (lk, old) = (Some k0, lastAccessed e0)"
        using lru_scan_none [OF a] True x by simp
      moreover have "x # es = [] @ (k0, e0) # es" using x by simp
      ultimately show ?thesis using True a by (metis empty_iff empty_set)
    qed
  next
    case False
    with Cons.prems x have "\<exists>(k, e) \<in> set es. lastAccessed e < old" by auto
    from Cons.IH [OF this, of lk]
    obtain pre k e post where h: "es = pre @ (k, e) # post"
        "lru_scan es (lk, old) = (Some k, lastAccessed e)"
        "lastAccessed e < old"
        "\<forall>(k', e') \<in> set pre. lastAccessed e < lastAccessed e'"
        "\<forall>(k', e') \<in> set post. lastAccessed e \<le> lastAccessed e'"
      by blast
    have "x # es = (x # pre) @ (k, e) # post" using h(1) by simp
    moreover have "lru_scan (x # es) (lk, old) = (Some k, lastAccessed e)"
      using h(2) False x by simp
    moreover have "\<forall>(k', e') \<in> set (x # pre). lastAccessed e < lastAccessed e'"
      using h(3,4) x False by auto
    ultimately show ?thesis using h(3,5) by blast
  qed
qed

lemma delete_middle:
  "distinct (map fst (pre @ (k, e) # post)) \<Longrightarrow> AList.delete k (pre @ (k, e) # post) = pre @ post"
  by (induction pre) (auto simp: delete_id)

text \<open>What a call of evictLeastRecentlyUsed does, case by case.\<close>

lemma evict_cases:
  "(evictLeastRecentlyUsed now c = c \<and>
      (cache c = [] \<or> (\<forall>(k, e) \<in> set (cache c). now \<le> lastAccessed e)
        \<or> fst (lru_scan (cache c) (None, now)) = Some []))
   \<or> (\<exists>pre k e post. cache c = pre @ (k, e) # post \<and> k \<noteq> []
        \<and> lastAccessed e < now
        \<and> (\<forall>(k', e') \<in> set pre. lastAccessed e < lastAccessed e')
        \<and> (\<forall>(k', e') \<in> set post. lastAccessed e \<le> lastAccessed e')
        \<and> evictLeastRecentlyUsed now c =
            c\<lparr>cache := AList.delete k (cache c),
              stats := (stats c)\<lparr>evictions := evictions (stats c) + 1\<rparr>\<rparr>)"
proof (cases "\<exists>(k, e) \<in> set (cache c). lastAccessed e < now")
  case False
  then have a: "\<forall>(k, e) \<in> set (cache c). now \<le> lastAccessed e" by auto
  then show ?thesis
    using lru_scan_none [OF a, of None] by (simp add: evictLeastRecentlyUsed_def)
next
  case True
  from lru_scan_first_min [OF this, of None]
  obtain pre k e post where h: "cache c = pre @ (k, e) # post"
      "lru_scan (cache c) (None, now) = (Some k, lastAccessed e)"
      "lastAccessed e < now"
      "\<forall>(k', e') \<in> set pre. lastAccessed e < lastAccessed e'"
      "\<forall>(k', e') \<in> set post. lastAccessed e \<le> lastAccessed e'"
    by blast
  show ?thesis
  proof (cases "k = []")
    case True
    then show ?thesis using h(1,2) by (simp add: evictLeastRecentlyUsed_def)
  next
    case False
    have "evictLeastRecentlyUsed now c =
            c\<lparr>cache := AList.delete k (cache c),
              stats := (stats c)\<lparr>evictions := evictions (stats c) + 1\<rparr>\<rparr>"
      using h(1,2) False by (simp add: evictLeastRecentlyUsed_def)
    then show ?thesis using h False by blast
  qed
qed

lemma distinct_evict:
  "distinct (map fst (cache c)) \<Longrightarrow> distinct (map fst (cache (evictLeastRecentlyUsed now c)))"
  by (simp add: evictLeastRecentlyUsed_def distinct_delete split: option.splits)

lemma distinct_remove_expired_aux:
  "distinct (map fst (cache c)) \<Longrightarrow>
   distinct (map fst (cache (fold (\<lambda>(key, entry) c'.
             if now - timestamp entry > ttlMs (config c')
             then c'\<lparr>cache := AList.delete key (cache c'),
                     stats := (stats c')\<lparr>evictions := evictions (stats c') + 1\<rparr>\<rparr>
             else c') es c)))"
  by (induction es arbitrary: c) (auto split: prod.splits simp: distinct_delete)

lemma distinct_remove_expired:
  "distinct (map fst (cache c)) \<Longrightarrow> distinct (map fst (cache (remove_expired now c)))"
  unfolding remove_expired_def by (rule distinct_remove_expired_aux)

lemma distinct_enforce_memory:
  assumes "enforce_memory clock i c = Some c'" and "distinct (map fst (cache c))"
  shows "distinct (map fst (cache c'))"
  using assms
proof (induction clock i c c' rule: enforce_memory.raw_induct [rotated 1, consumes 1])
  case (1 enforce clock i c c')
  show ?case
  proof (cases "isOverMemoryLimit c")
    case True
    with 1(2) have "enforce clock (Suc i) (evictLeastRecentlyUsed (clock i) c) = Some c'" by simp
    from 1(1) [OF this distinct_evict [OF 1(3)]] show ?thesis .
  next
    case False
    with 1 show ?thesis by simp
  qed
qed

lemma reachable_distinct: "reachable c \<Longrightarrow> distinct (map fst (cache c))"
proof (induction rule: reachable.induct)
  case (r_new p)
  then show ?case by (simp add: new_ContactCache_def startCleanupTimer_def Let_def)
next
  case (r_get c key now)
  then show ?case
    by (auto simp: get_def Let_def updateStats_def distinct_delete distinct_update split: option.splits)
next
  case (r_set c d key now now1 now2)
  then show ?case
    by (simp add: set_cache_def Let_def updateStats_def distinct_update distinct_evict)
next
  case (r_invalidate c k)
  then show ?case by (auto simp: invalidate_def updateStats_def distinct_delete split: option.splits)
next
  case (r_updateConfig c p)
  then show ?case by (auto simp: updateConfig_def Let_def startCleanupTimer_def stopCleanupTimer_def)
next
  case (r_cleanup c now clock c')
  then show ?case
    by (auto simp: cleanup_def updateStats_def split: if_splits
        dest!: distinct_enforce_memory intro: distinct_remove_expired)
next
  case (r_destroy c)
  then show ?case by (simp add: destroy_def updateStats_def)
next
  case (r_mutate c key entry d)
  then show ?case by (simp add: distinct_update)
qed

lemmas store_eval_simps =
  set_cache_def get_def new_ContactCache_def no_config_def merge_config_def
  DEFAULT_CONFIG_def startCleanupTimer_def stopCleanupTimer_def Let_def shouldEvictForMemory_def
  estimateMemoryUsage_def totalSize_def contactsSize_def initial_stats_def
  evictLeastRecentlyUsed_def updateStats_def isOverMemoryLimit_def

lemma lru_store0_eval:
  "cache lru_store0 = []" "enabled (config lru_store0)" "maxEntries (config lru_store0) = 2"
  "maxMemoryMB (config lru_store0) = 50" "ttlMs (config lru_store0) = 600000"
  by (simp_all add: lru_store0_def store_eval_simps)

lemma lru_store2_eval:
  "cache lru_store2 =
     [(''k1'', \<lparr>data = [(''Alice'', [''123''])], timestamp = 1, accessCount = 1, lastAccessed = 1\<rparr>),
      (''k2'', \<lparr>data = [(''Bob'', [''456''])], timestamp = 2, accessCount = 1, lastAccessed = 2\<rparr>)]"
  by (simp add: lru_store2_def lru_store0_def store_eval_simps)

subsection \<open>C4: which entry an eviction removes\<close>

text \<open>
  What holds when the clock is ahead. An eviction that removes anything removes an entry
  whose \<open>lastAccessed\<close> is minimal, and among the entries with that minimum the first in
  iteration order: every entry before it is strictly younger, every entry after it is not
  older. With \<open>maxEntries = 2\<close>, no memory pressure, distinct keys, \<open>k2\<close> not empty and
  written strictly before \<open>k1\<close> is read and before the eviction reads the clock,
  inserting \<open>k1\<close>, then \<open>k2\<close>, reading \<open>k1\<close> and inserting \<open>k3\<close> evicts \<open>k2\<close> and
  keeps \<open>k1\<close>.
\<close>

lemma lru_eviction_clock_ahead:
  "(reachable c \<longrightarrow> cache (evictLeastRecentlyUsed now c) \<noteq> cache c \<longrightarrow>
      (\<exists>pre k e post. cache c = pre @ (k, e) # post
         \<and> cache (evictLeastRecentlyUsed now c) = pre @ post
         \<and> (\<forall>(k', e') \<in> set pre. lastAccessed e < lastAccessed e')
         \<and> (\<forall>(k', e') \<in> set post. lastAccessed e \<le> lastAccessed e')))
   \<and> (cache c0 = [] \<and> enabled (config c0) \<and> maxEntries (config c0) = 2
        \<and> k1 \<noteq> k2 \<and> k1 \<noteq> k3 \<and> k2 \<noteq> k3 \<and> k2 \<noteq> []
        \<and> of_nat (contactsSize d1 + 200 + contactsSize d2) / (1024 * 1024) \<le> maxMemoryMB (config c0)
        \<and> t3 - t1 \<le> ttlMs (config c0)
        \<and> t2 < t3 \<and> t2 < n1 \<and> t2 < n2 \<longrightarrow>
      (let c1 = set_cache d1 k1 t1 a1 a2 c0;
           c2 = set_cache d2 k2 t2 b1 b2 c1;
           c3 = snd (get k1 t3 c2);
           c4 = set_cache d3 k3 t4 n1 n2 c3
       in fst (get k1 t3 c2) = Some d1
          \<and> map fst (cache c3) = [k1, k2]
          \<and> map fst (cache c4) = [k1, k3]
          \<and> map_of (cache c4) k2 = None
          \<and> evictions (stats c4) = evictions (stats c0) + 1))"
proof (intro conjI impI)
  assume r: "reachable c" and ne: "cache (evictLeastRecentlyUsed now c) \<noteq> cache c"
  from evict_cases [of now c] ne
  obtain pre k e post where h: "cache c = pre @ (k, e) # post"
      "\<forall>(k', e') \<in> set pre. lastAccessed e < lastAccessed e'"
      "\<forall>(k', e') \<in> set post. lastAccessed e \<le> lastAccessed e'"
      "evictLeastRecentlyUsed now c =
            c\<lparr>cache := AList.delete k (cache c),
              stats := (stats c)\<lparr>evictions := evictions (stats c) + 1\<rparr>\<rparr>"
    by auto
  have "distinct (map fst (pre @ (k, e) # post))"
    using reachable_distinct [OF r] h(1) by simp
  then have "AList.delete k (cache c) = pre @ post"
    using h(1) delete_middle by metis
  then show "\<exists>pre k e post. cache c = pre @ (k, e) # post
         \<and> cache (evictLeastRecentlyUsed now c) = pre @ post
         \<and> (\<forall>(k', e') \<in> set pre. lastAccessed e < lastAccessed e')
         \<and> (\<forall>(k', e') \<in> set post. lastAccessed e \<le> lastAccessed e')"
    using h by (intro exI [of _ pre] exI [of _ k] exI [of _ e] exI [of _ post]) simp
next
  assume a: "cache c0 = [] \<and> enabled (config c0) \<and> maxEntries (config c0) = 2
        \<and> k1 \<noteq> k2 \<and> k1 \<noteq> k3 \<and> k2 \<noteq> k3 \<and> k2 \<noteq> []
        \<and> of_nat (contactsSize d1 + 200 + contactsSize d2) / (1024 * 1024) \<le> maxMemoryMB (config c0)
        \<and> t3 - t1 \<le> ttlMs (config c0)
        \<and> t2 < t3 \<and> t2 < n1 \<and> t2 < n2"
  define e1 where "e1 = \<lparr>data = d1, timestamp = t1, accessCount = 1, lastAccessed = t1\<rparr>"
  define e2 where "e2 = \<lparr>data = d2, timestamp = t2, accessCount = 1, lastAccessed = t2\<rparr>"
  define e3 where "e3 = \<lparr>data = d3, timestamp = t4, accessCount = 1, lastAccessed = t4\<rparr>"
  define c1 where "c1 = set_cache d1 k1 t1 a1 a2 c0"
  define c2 where "c2 = set_cache d2 k2 t2 b1 b2 c1"
  define c3 where "c3 = snd (get k1 t3 c2)"
  define c4 where "c4 = set_cache d3 k3 t4 n1 n2 c3"
  have c1: "cache c1 = [(k1, e1)]" "config c1 = config c0" "evictions (stats c1) = evictions (stats c0)"
    using a by (simp_all add: c1_def e1_def set_cache_def Let_def evictLeastRecentlyUsed_def updateStats_def)
  have nomem: "\<not> shouldEvictForMemory d2 c1"
    using a c1 by (simp add: shouldEvictForMemory_def estimateMemoryUsage_def totalSize_def e1_def
        add_divide_distrib Let_def)
  have c2: "cache c2 = [(k1, e1), (k2, e2)]" "config c2 = config c0"
      "evictions (stats c2) = evictions (stats c0)"
    using a c1 nomem by (simp_all add: c2_def e2_def set_cache_def Let_def updateStats_def)
  have g: "fst (get k1 t3 c2) = Some d1"
    using a c2 by (simp add: get_def Let_def e1_def)
  have c3: "cache c3 = [(k1, e1\<lparr>accessCount := 2, lastAccessed := t3\<rparr>), (k2, e2)]"
      "config c3 = config c0" "evictions (stats c3) = evictions (stats c0)"
    using a c2 by (simp_all add: c3_def get_def Let_def e1_def updateStats_def)
  have ev: "evictLeastRecentlyUsed n c3 =
      c3\<lparr>cache := [(k1, e1\<lparr>accessCount := 2, lastAccessed := t3\<rparr>)],
         stats := (stats c3)\<lparr>evictions := evictions (stats c3) + 1\<rparr>\<rparr>" if "t2 < n" for n
    using a c3 that by (simp add: evictLeastRecentlyUsed_def e1_def e2_def)
  have c4: "cache c4 = [(k1, e1\<lparr>accessCount := 2, lastAccessed := t3\<rparr>), (k3, e3)]
      \<and> evictions (stats c4) = evictions (stats c0) + 1"
  proof (cases "shouldEvictForMemory d3 c3")
    case True
    then show ?thesis using a c3 ev [of n1]
      by (simp add: c4_def set_cache_def Let_def updateStats_def e3_def)
  next
    case False
    then show ?thesis using a c3 ev [of n2]
      by (simp add: c4_def set_cache_def Let_def updateStats_def e3_def)
  qed
  show "let c1 = set_cache d1 k1 t1 a1 a2 c0;
           c2 = set_cache d2 k2 t2 b1 b2 c1;
           c3 = snd (get k1 t3 c2);
           c4 = set_cache d3 k3 t4 n1 n2 c3
       in fst (get k1 t3 c2) = Some d1
          \<and> map fst (cache c3) = [k1, k2]
          \<and> map fst (cache c4) = [k1, k3]
          \<and> map_of (cache c4) k2 = None
          \<and> evictions (stats c4) = evictions (stats c0) + 1"
    unfolding Let_def
    using g c3 c4 a by (auto simp add: c1_def c2_def c3_def c4_def)
qed

lemma lru_eviction_clock_ahead_example:
  "map fst (cache (evictLeastRecentlyUsed 5 lru_store2)) = [''k2'']
   \<and> (let c1 = set_cache [(''Alice'', [''123''])] ''k1'' 1 1 1 lru_store0;
           c2 = set_cache [(''Bob'', [''456''])] ''k2'' 2 2 2 c1;
           c3 = snd (get ''k1'' 3 c2);
           c4 = set_cache [(''Carol'', [''789''])] ''k3'' 4 4 4 c3
       in map fst (cache c4) = [''k1'', ''k3''] \<and> map_of (cache c4) ''k2'' = None)"
proof -
  have r: "reachable lru_store2"
    unfolding lru_store2_def lru_store0_def by (intro r_set r_new)
  have ch: "cache (evictLeastRecentlyUsed 5 lru_store2) \<noteq> cache lru_store2"
    by (simp add: lru_store2_eval evictLeastRecentlyUsed_def)
  have hyp: "cache lru_store0 = [] \<and> enabled (config lru_store0) \<and> maxEntries (config lru_store0) = 2
        \<and> ''k1'' \<noteq> ''k2'' \<and> ''k1'' \<noteq> ''k3'' \<and> ''k2'' \<noteq> ''k3'' \<and> ''k2'' \<noteq> []
        \<and> of_nat (contactsSize [(''Alice'', [''123''])] + 200 + contactsSize [(''Bob'', [''456''])])
             / (1024 * 1024) \<le> maxMemoryMB (config lru_store0)
        \<and> (3::int) - 1 \<le> ttlMs (config lru_store0)
        \<and> (2::int) < 3 \<and> (2::int) < 4 \<and> (2::int) < 4"
    by (simp add: lru_store0_eval contactsSize_def)
  note inst = lru_eviction_clock_ahead [where c = lru_store2 and now = 5 and ?c0.0 = lru_store0
      and ?k1.0 = "''k1''" and ?k2.0 = "''k2''" and ?k3.0 = "''k3''"
      and ?d1.0 = "[(''Alice'', [''123''])]" and ?d2.0 = "[(''Bob'', [''456''])]"
      and ?d3.0 = "[(''Carol'', [''789''])]"
      and ?t1.0 = 1 and ?t2.0 = 2 and ?t3.0 = 3 and ?t4.0 = 4 and ?n1.0 = 4 and ?n2.0 = 4
      and ?a1.0 = 1 and ?a2.0 = 1 and ?b1.0 = 2 and ?b2.0 = 2]
  from inst r ch obtain pre k e post where
    h: "cache lru_store2 = pre @ (k, e) # post"
       "cache (evictLeastRecentlyUsed 5 lru_store2) = pre @ post"
       "\<forall>(k', e') \<in> set pre. lastAccessed e < lastAccessed e'"
       "\<forall>(k', e') \<in> set post. lastAccessed e \<le> lastAccessed e'"
    by blast
  have first: "map fst (cache (evictLeastRecentlyUsed 5 lru_store2)) = [''k2'']"
    by (simp add: lru_store2_eval evictLeastRecentlyUsed_def)
  from inst hyp have second: "let c1 = set_cache [(''Alice'', [''123''])] ''k1'' 1 1 1 lru_store0;
           c2 = set_cache [(''Bob'', [''456''])] ''k2'' 2 2 2 c1;
           c3 = snd (get ''k1'' 3 c2);
           c4 = set_cache [(''Carol'', [''789''])] ''k3'' 4 4 4 c3
       in map fst (cache c4) = [''k1'', ''k3''] \<and> map_of (cache c4) ''k2'' = None"
    unfolding Let_def by blast
  show ?thesis using first second by blast
qed

text \<open>
  C4 at a failing input. With \<open>maxEntries = 2\<close>, the keys \<open>k1\<close> and \<open>k2\<close> are inserted,
  \<open>k1\<close> is read and \<open>k3\<close> is inserted, all within one millisecond (every clock reading
  is 5). The read succeeds, so \<open>k2\<close> is the least recently used entry; the insertion of
  \<open>k3\<close> calls the eviction, whose scan is seeded with the current time and compares with
  \<open><\<close>, finds no candidate and removes nothing: the store ends with three entries and no
  eviction counted. The second half is the same scenario at the times 1, 2, 3, 4 with the
  empty string as second key: that entry has the oldest access, the eviction finds its key,
  takes it for no key, and again removes nothing.
\<close>

theorem lru_scenario_no_eviction:
  "(let c1 = set_cache [(''Alice'', [''123''])] ''k1'' 5 5 5 lru_store0;
        c2 = set_cache [(''Bob'', [''456''])] ''k2'' 5 5 5 c1;
        c3 = snd (get ''k1'' 5 c2);
        c4 = set_cache [(''Carol'', [''789''])] ''k3'' 5 5 5 c3
    in maxEntries (config c4) = 2
       \<and> fst (get ''k1'' 5 c2) = Some [(''Alice'', [''123''])]
       \<and> map fst (cache c4) = [''k1'', ''k2'', ''k3'']
       \<and> evictions (stats c4) = 0)
   \<and> (let c1 = set_cache [(''Alice'', [''123''])] ''k1'' 1 1 1 lru_store0;
            c2 = set_cache [(''Bob'', [''456''])] [] 2 2 2 c1;
            c3 = snd (get ''k1'' 3 c2);
            c4 = set_cache [(''Carol'', [''789''])] ''k3'' 4 4 4 c3
        in map fst (cache c4) = [''k1'', [], ''k3'']
           \<and> evictions (stats c4) = 0)"
  by (simp add: lru_store0_def store_eval_simps)

subsection \<open>C2: what set evicts\<close>






lemma cache_evict_subset: "set (cache (evictLeastRecentlyUsed now c)) \<subseteq> set (cache c)"
  by (auto simp: evictLeastRecentlyUsed_def AList.delete_eq split: option.splits)




subsection \<open>C10: overwriting a key at capacity\<close>

text \<open>
  C10 at a failing input. The store holds \<open>k1\<close> and \<open>k2\<close>, both written at time 5, with
  \<open>maxEntries = 2\<close>; \<open>k2\<close> is overwritten in the same millisecond. The eviction is called,
  but no entry was accessed strictly before the clock reading that seeds its scan, so
  nothing is evicted: both keys remain and the eviction counter stays 0.
\<close>

theorem overwrite_same_ms_no_eviction:
  "enabled (config same_ms_store)
   \<and> int (length (cache same_ms_store)) \<ge> maxEntries (config same_ms_store)
   \<and> map_of (cache same_ms_store) ''k2'' \<noteq> None
   \<and> map fst (cache (set_cache [(''Carol'', [''789''])] ''k2'' 5 5 5 same_ms_store)) = [''k1'', ''k2'']
   \<and> evictions (stats (set_cache [(''Carol'', [''789''])] ''k2'' 5 5 5 same_ms_store)) = 0"
  by (simp add: same_ms_store_def lru_store0_def store_eval_simps)

text \<open>
  Overwriting a key at capacity, when time has moved on since the entries were written: the
  entry under the other key is evicted and the store is left below \<open>maxEntries\<close>.
\<close>

lemma overwrite_at_capacity_evicts_other_key:
  "enabled (config lru_store2)
   \<and> int (length (cache lru_store2)) \<ge> maxEntries (config lru_store2)
   \<and> map fst (cache lru_store2) = [''k1'', ''k2'']
   \<and> map fst (cache (set_cache [(''Carol'', [''789''])] ''k2'' 4 4 4 lru_store2)) = [''k2'']
   \<and> int (length (cache (set_cache [(''Carol'', [''789''])] ''k2'' 4 4 4 lru_store2)))
       < maxEntries (config lru_store2)"
  by (simp add: lru_store2_def lru_store0_def store_eval_simps)

subsection \<open>C3: cleanup\<close>

lemma estimate_empty: "cache c = [] \<Longrightarrow> estimateMemoryUsage c = 0"
  by (simp add: estimateMemoryUsage_def totalSize_def)

lemma length_delete_less:
  assumes "k \<in> fst ` set al"
  shows "length (AList.delete k al) < length al"
proof -
  from assms obtain v where "(k, v) \<in> set al" by auto
  then show ?thesis
    unfolding AList.delete_eq by (rule length_filter_less) simp
qed

lemma evict_shrinks:
  assumes "cache c \<noteq> []" and "\<forall>(k, e) \<in> set (cache c). k \<noteq> [] \<and> lastAccessed e < now"
  shows "length (cache (evictLeastRecentlyUsed now c)) < length (cache c)"
proof -
  from assms(1) obtain x where x: "x \<in> set (cache c)" by (cases "cache c") auto
  with assms(2) have "\<not> (\<forall>(k, e) \<in> set (cache c). now \<le> lastAccessed e)" by fastforce
  moreover have "fst (lru_scan (cache c) (None, now)) \<noteq> Some []"
  proof
    assume e: "fst (lru_scan (cache c) (None, now)) = Some []"
    from x assms(2) have "\<exists>(k, e) \<in> set (cache c). lastAccessed e < now" by fastforce
    from lru_scan_first_min [OF this, of None] e assms(2) show False by fastforce
  qed
  ultimately obtain pre k e post where h: "cache c = pre @ (k, e) # post"
      "evictLeastRecentlyUsed now c =
            c\<lparr>cache := AList.delete k (cache c),
              stats := (stats c)\<lparr>evictions := evictions (stats c) + 1\<rparr>\<rparr>"
    using evict_cases [of now c] assms(1) by auto
  have "k \<in> fst ` set (cache c)" using h(1) by force
  from length_delete_less [OF this] show ?thesis using h(2) by simp
qed

text \<open>
  The memory loop of cleanup ends with the ceiling satisfied when the ceiling is not negative,
  no key is empty and every entry was last accessed before the clock readings of the loop.
\<close>

lemma enforce_memory_returns:
  assumes "0 \<le> maxMemoryMB (config c)"
    and "\<forall>(k, e) \<in> set (cache c). k \<noteq> [] \<and> (\<forall>j. lastAccessed e < clock j)"
  shows "\<exists>c'. enforce_memory clock i c = Some c' \<and> \<not> isOverMemoryLimit c'
            \<and> set (cache c') \<subseteq> set (cache c)"
  using assms
proof (induction "length (cache c)" arbitrary: c i rule: less_induct)
  case less
  show ?case
  proof (cases "isOverMemoryLimit c")
    case False
    then show ?thesis by (subst enforce_memory.simps) simp
  next
    case True
    then have ne: "cache c \<noteq> []"
      using less.prems(1) estimate_empty [of c] by (auto simp: isOverMemoryLimit_def)
    let ?c1 = "evictLeastRecentlyUsed (clock i) c"
    have h: "\<forall>(k, e) \<in> set (cache c). k \<noteq> [] \<and> lastAccessed e < clock i"
      using less.prems(2) by fastforce
    have sub: "set (cache ?c1) \<subseteq> set (cache c)" by (rule cache_evict_subset)
    have "\<exists>c'. enforce_memory clock (Suc i) ?c1 = Some c' \<and> \<not> isOverMemoryLimit c'
            \<and> set (cache c') \<subseteq> set (cache ?c1)"
    proof (rule less.hyps)
      show "length (cache ?c1) < length (cache c)" by (rule evict_shrinks [OF ne h])
      show "0 \<le> maxMemoryMB (config ?c1)" using less.prems(1) by simp
      show "\<forall>(k, e) \<in> set (cache ?c1). k \<noteq> [] \<and> (\<forall>j. lastAccessed e < clock j)"
        using less.prems(2) sub by blast
    qed
    then obtain c' where "enforce_memory clock (Suc i) ?c1 = Some c'" "\<not> isOverMemoryLimit c'"
        "set (cache c') \<subseteq> set (cache c)"
      using sub by blast
    then show ?thesis using True by (subst enforce_memory.simps) simp
  qed
qed

lemma remove_expired_aux:
  "distinct (map fst es) \<Longrightarrow> set es \<subseteq> set (cache c) \<Longrightarrow> distinct (map fst (cache c)) \<Longrightarrow>
   (let c' = fold (\<lambda>(key, entry) c'.
             if now - timestamp entry > ttlMs (config c')
             then c'\<lparr>cache := AList.delete key (cache c'),
                     stats := (stats c')\<lparr>evictions := evictions (stats c') + 1\<rparr>\<rparr>
             else c') es c
    in cache c' = filter (\<lambda>(k, e). (k, e) \<notin> set es \<or> \<not> now - timestamp e > ttlMs (config c)) (cache c)
       \<and> evictions (stats c') = evictions (stats c)
            + length (filter (\<lambda>(k, e). now - timestamp e > ttlMs (config c)) es)
       \<and> config c' = config c)"
proof (induction es arbitrary: c)
  case Nil
  then show ?case by simp
next
  case (Cons x es)
  obtain k e where x: "x = (k, e)" by (cases x)
  have kin: "(k, e) \<in> set (cache c)" using Cons.prems(2) x by simp
  have knot: "k \<notin> fst ` set es" using Cons.prems(1) x by simp
  have uniq: "\<And>k' e'. (k', e') \<in> set (cache c) \<Longrightarrow> k' = k \<Longrightarrow> e' = e"
    using Cons.prems(3) kin by (meson eq_key_imp_eq_value)
  show ?case
  proof (cases "now - timestamp e > ttlMs (config c)")
    case False
    have "set es \<subseteq> set (cache c)" using Cons.prems(2) by simp
    from Cons.IH [OF _ this Cons.prems(3)] Cons.prems(1) False x knot
    show ?thesis
      by (auto simp: Let_def intro!: filter_cong dest: uniq)
  next
    case True
    let ?c1 = "c\<lparr>cache := AList.delete k (cache c),
                  stats := (stats c)\<lparr>evictions := evictions (stats c) + 1\<rparr>\<rparr>"
    have s1: "set es \<subseteq> set (cache ?c1)"
      using Cons.prems(2) knot by (auto simp: AList.delete_eq intro: rev_image_eqI)
    have d1: "distinct (map fst (cache ?c1))" using Cons.prems(3) by (simp add: distinct_delete)
    from Cons.IH [OF _ s1 d1] Cons.prems(1) True x
    show ?thesis
      by (auto simp: Let_def AList.delete_eq intro!: filter_cong dest: uniq)
  qed
qed

text \<open>
  The first loop of cleanup keeps exactly the entries that are not expired and counts one
  eviction for each entry it removes.
\<close>

lemma remove_expired_filter:
  assumes "distinct (map fst (cache c))"
  shows "cache (remove_expired now c)
           = filter (\<lambda>(k, e). \<not> now - timestamp e > ttlMs (config c)) (cache c)"
    and "evictions (stats (remove_expired now c)) = evictions (stats c)
           + length (filter (\<lambda>(k, e). now - timestamp e > ttlMs (config c)) (cache c))"
  using remove_expired_aux [OF assms subset_refl assms, of now]
  by (auto simp: remove_expired_def Let_def intro: filter_cong)

lemma isOverMemoryLimit_updateStats [simp]:
  "isOverMemoryLimit (updateStats c) = isOverMemoryLimit c"
  by (simp add: isOverMemoryLimit_def estimateMemoryUsage_def)

lemma cleanup_disabled: "\<not> enabled (config c) \<Longrightarrow> cleanup now clock c = Some c"
  by (simp add: cleanup_def)

text \<open>
  On an enabled store with distinct, non-empty keys, a ceiling that is not negative and a
  clock ahead of every last access, cleanup returns; what it returns holds no expired entry,
  holds only entries of the store, and is within the ceiling.
\<close>

lemma cleanup_returns:
  assumes en: "enabled (config c)" and mx: "0 \<le> maxMemoryMB (config c)"
    and ds: "distinct (map fst (cache c))"
    and ok: "\<forall>(k, e) \<in> set (cache c). k \<noteq> [] \<and> (\<forall>j. lastAccessed e < clock j)"
  shows "\<exists>c'. cleanup now clock c = Some c' \<and> \<not> isOverMemoryLimit c'
            \<and> set (cache c') \<subseteq> set (cache c)
            \<and> (\<forall>(k, e) \<in> set (cache c'). \<not> now - timestamp e > ttlMs (config c))"
proof -
  let ?c1 = "remove_expired now c"
  have c1: "cache ?c1 = filter (\<lambda>(k, e). \<not> now - timestamp e > ttlMs (config c)) (cache c)"
    by (rule remove_expired_filter(1) [OF ds])
  have mx1: "0 \<le> maxMemoryMB (config ?c1)" using mx by simp
  have ok1: "\<forall>(k, e) \<in> set (cache ?c1). k \<noteq> [] \<and> (\<forall>j. lastAccessed e < clock j)"
    using ok unfolding c1 by auto
  from enforce_memory_returns [OF mx1 ok1, of 0]
  obtain c2 where c2: "enforce_memory clock 0 ?c1 = Some c2" "\<not> isOverMemoryLimit c2"
      "set (cache c2) \<subseteq> set (cache ?c1)"
    by blast
  have "cleanup now clock c = Some (updateStats c2)"
    using en c2(1) by (simp add: cleanup_def)
  moreover have "set (cache (updateStats c2)) \<subseteq> set (cache c)"
    using c2(3) unfolding c1 by auto
  moreover have "\<forall>(k, e) \<in> set (cache (updateStats c2)). \<not> now - timestamp e > ttlMs (config c)"
    using c2(3) unfolding c1 by auto
  ultimately show ?thesis using c2(2) by simp
qed

lemma stuck_store_eval:
  "cache stuck_store = [([], \<lparr>data = [], timestamp = 0, accessCount = 1, lastAccessed = 0\<rparr>)]"
  "config stuck_store = DEFAULT_CONFIG\<lparr>maxMemoryMB := 1 / 10000\<rparr>"
  by (simp_all add: stuck_store_def store_eval_simps)

lemma stuck_store_over: "isOverMemoryLimit stuck_store"
  by (simp add: isOverMemoryLimit_def estimateMemoryUsage_def totalSize_def contactsSize_def
      stuck_store_eval DEFAULT_CONFIG_def)

lemma stuck_store_evict: "evictLeastRecentlyUsed now stuck_store = stuck_store"
  by (simp add: evictLeastRecentlyUsed_def stuck_store_eval split: option.splits)

lemma stuck_store_expired: "remove_expired 1 stuck_store = stuck_store"
  by (simp add: remove_expired_def stuck_store_eval DEFAULT_CONFIG_def)

lemma enforce_memory_stuck:
  assumes "enforce_memory clock i c = Some c'"
  shows "c \<noteq> stuck_store"
  using assms
proof (induction clock i c c' rule: enforce_memory.raw_induct [rotated 1, consumes 1])
  case (1 enforce clock i c c')
  show ?case
  proof
    assume c: "c = stuck_store"
    with 1(2) have "enforce clock (Suc i) stuck_store = Some c'"
      by (simp add: stuck_store_over stuck_store_evict)
    from 1(1) [OF this] show False by simp
  qed
qed

text \<open>
  C3 at a failing input. The store is enabled, holds one unexpired entry under the empty key
  and its estimate (200 bytes) is above the ceiling. Each round of the memory loop calls the
  eviction, which finds the empty key and, taking it for no key, deletes nothing; the loop
  never ends, whatever the clock does.
\<close>

theorem cleanup_never_returns:
  "enabled (config stuck_store) \<and> cache stuck_store \<noteq> [] \<and> cleanup 1 clock stuck_store = None"
proof -
  have "enforce_memory clock 0 stuck_store = None"
    using enforce_memory_stuck [of clock 0 stuck_store] by (cases "enforce_memory clock 0 stuck_store") auto
  then show ?thesis
    by (simp add: cleanup_def stuck_store_expired stuck_store_eval DEFAULT_CONFIG_def)
qed

subsection \<open>C6: disabling the cache\<close>

text \<open>
  C6 at a failing input. Disabling a store that holds one entry clears the map and stops the
  timer, but \<open>updateConfig\<close> does not recompute the statistics: \<open>currentEntries\<close> still
  reads 1.
\<close>

theorem disable_leaves_stale_count:
  "cache one_entry_store \<noteq> []
   \<and> cache (updateConfig disable one_entry_store) = []
   \<and> cleanupTimer (updateConfig disable one_entry_store) = None
   \<and> currentEntries (getStats (updateConfig disable one_entry_store)) = 1"
  by (simp add: one_entry_store_def disable_def updateConfig_def getStats_def store_eval_simps)

text \<open>What disabling does in general, and what a disabled store answers.\<close>

lemma disable_clears:
  "enabled (config c) \<Longrightarrow>
   cache (updateConfig disable c) = [] \<and> cleanupTimer (updateConfig disable c) = None
   \<and> \<not> enabled (config (updateConfig disable c))
   \<and> stats (updateConfig disable c) = stats c"
  by (simp add: updateConfig_def disable_def no_config_def merge_config_def stopCleanupTimer_def Let_def)

lemma disabled_get_misses:
  "\<not> enabled (config c) \<Longrightarrow>
   get key now c = (None, c\<lparr>stats := (stats c)\<lparr>totalQueries := totalQueries (stats c) + 1,
                                              misses := misses (stats c) + 1\<rparr>\<rparr>)"
  by (simp add: get_def Let_def)

lemma stats_evict_entries [simp]:
  "currentEntries (stats (evictLeastRecentlyUsed now c)) = currentEntries (stats c)"
  by (simp add: evictLeastRecentlyUsed_def split: option.splits)

lemma currentEntries_updateStats [simp]:
  "currentEntries (stats (updateStats c)) = length (cache c)"
  by (simp add: updateStats_def)

lemma length_update_present:
  "map_of al k = Some v \<Longrightarrow> length (AList.update k v' al) = length al"
  by (induction al) (auto split: if_splits)

lemma cleanup_counts:
  "cleanup now clock c = Some c' \<Longrightarrow> enabled (config c) \<Longrightarrow>
   currentEntries (stats c') = length (cache c')"
  by (auto simp: cleanup_def)

text \<open>
  In every state a cache object can reach, a store that holds entries reports their number.
\<close>

lemma reachable_count:
  "reachable c \<Longrightarrow> cache c \<noteq> [] \<longrightarrow> currentEntries (stats c) = length (cache c)"
proof (induction rule: reachable.induct)
  case (r_new p)
  then show ?case by (simp add: new_ContactCache_def startCleanupTimer_def Let_def)
next
  case (r_get c key now)
  then show ?case by (auto simp: get_def Let_def split: option.splits)
next
  case (r_set c d key now now1 now2)
  then show ?case by (simp add: set_cache_def Let_def)
next
  case (r_invalidate c k)
  then show ?case by (simp add: invalidate_def)
next
  case (r_updateConfig c p)
  from reachable_inv [OF r_updateConfig.hyps] r_updateConfig.IH show ?case
    by (auto simp: updateConfig_def Let_def startCleanupTimer_def stopCleanupTimer_def)
next
  case (r_cleanup c now clock c')
  show ?case
  proof (cases "enabled (config c)")
    case True
    with r_cleanup.hyps(2) show ?thesis by (simp add: cleanup_counts)
  next
    case False
    with r_cleanup.hyps(2) have "c' = c" by (simp add: cleanup_def)
    with r_cleanup.IH show ?thesis by simp
  qed
next
  case (r_destroy c)
  then show ?case by (simp add: destroy_def)
next
  case (r_mutate c key entry d)
  then have "cache c \<noteq> []" by auto
  with r_mutate show ?case by (simp add: length_update_present)
qed

text \<open>
  Disabling any reachable store that holds entries leaves \<open>currentEntries\<close> at their former
  number, which is not 0.
\<close>

lemma disable_count_stale:
  assumes "reachable c" and "cache c \<noteq> []"
  shows "currentEntries (getStats (updateConfig disable c)) = length (cache c)"
    and "currentEntries (getStats (updateConfig disable c)) \<noteq> 0"
proof -
  have en: "enabled (config c)" using reachable_inv [OF assms(1)] assms(2) by simp
  have "currentEntries (stats c) = length (cache c)"
    using reachable_count [OF assms(1)] assms(2) by simp
  then show "currentEntries (getStats (updateConfig disable c)) = length (cache c)"
    using disable_clears [OF en] by (simp add: getStats_def)
  then show "currentEntries (getStats (updateConfig disable c)) \<noteq> 0"
    using assms(2) by simp
qed

subsection \<open>C5: the hit rate\<close>

text \<open>
  C5, as stated, fails: after one \<open>set\<close> and one successful \<open>get\<close> the hit rate is 100,
  not \<open>hits / totalQueries = 1\<close>.
\<close>

theorem hitRate_counterexample:
  "hits (getStats (snd (get ''k'' 1 one_entry_store))) = 1
   \<and> totalQueries (getStats (snd (get ''k'' 1 one_entry_store))) = 1
   \<and> hitRate (getStats (snd (get ''k'' 1 one_entry_store))) = 100
   \<and> hitRate (getStats (snd (get ''k'' 1 one_entry_store)))
       \<noteq> of_nat (hits (getStats (snd (get ''k'' 1 one_entry_store))))
          / of_nat (totalQueries (getStats (snd (get ''k'' 1 one_entry_store))))"
  by (simp add: one_entry_store_def getStats_def store_eval_simps)

lemma zero_queries_apply_op:
  "(totalQueries (stats c) = 0 \<longrightarrow> hitRate (stats c) = 0) \<Longrightarrow>
   totalQueries (stats (apply_op op c)) = 0 \<longrightarrow> hitRate (stats (apply_op op c)) = 0"
  by (cases op) (auto simp: get_def set_cache_def updateStats_def Let_def split: option.splits)

lemma zero_queries_run_ops:
  "(totalQueries (stats c) = 0 \<longrightarrow> hitRate (stats c) = 0) \<Longrightarrow>
   totalQueries (stats (run_ops ops c)) = 0 \<longrightarrow> hitRate (stats (run_ops ops c)) = 0"
  unfolding run_ops_def
proof (induction ops arbitrary: c)
  case Nil
  then show ?case by simp
next
  case (Cons op ops)
  show ?case using Cons.IH [OF zero_queries_apply_op [OF Cons.prems]] by simp
qed

lemma recomputes_hitRate:
  "recomputes op c \<Longrightarrow>
   hitRate (stats (apply_op op c)) =
     (if totalQueries (stats (apply_op op c)) > 0
      then of_nat (hits (stats (apply_op op c))) / of_nat (totalQueries (stats (apply_op op c))) * 100
      else 0)"
  by (cases op) (auto simp: get_def set_cache_def updateStats_def Let_def split: option.splits)

text \<open>
  C5, amended. The hit rate is a percentage. After any sequence of \<open>get\<close> and \<open>set\<close>
  calls on a new store it is 0 when \<open>totalQueries\<close> is 0; and right after a call that
  recomputes the statistics (a \<open>get\<close> that finds an entry, a \<open>set\<close> on an enabled store)
  it equals \<open>hits / totalQueries * 100\<close>.
\<close>

theorem hitRate_percentage:
  "(totalQueries (getStats (run_ops ops (new_ContactCache p))) = 0 \<longrightarrow>
      hitRate (getStats (run_ops ops (new_ContactCache p))) = 0)
   \<and> (recomputes op (run_ops ops (new_ContactCache p)) \<longrightarrow>
        hitRate (getStats (apply_op op (run_ops ops (new_ContactCache p)))) =
         (if totalQueries (getStats (apply_op op (run_ops ops (new_ContactCache p)))) > 0
          then of_nat (hits (getStats (apply_op op (run_ops ops (new_ContactCache p)))))
               / of_nat (totalQueries (getStats (apply_op op (run_ops ops (new_ContactCache p))))) * 100
          else 0))"
proof -
  have "totalQueries (stats (new_ContactCache p)) = 0 \<longrightarrow> hitRate (stats (new_ContactCache p)) = 0"
    by (simp add: new_ContactCache_def initial_stats_def startCleanupTimer_def Let_def)
  from zero_queries_run_ops [OF this] recomputes_hitRate show ?thesis
    unfolding getStats_def by blast
qed

theorem hitRate_percentage_witness:
  "hitRate (getStats (run_ops [OpSet [(''Alice'', [''123''])] ''k'' 0 0 0] (new_ContactCache no_config))) = 0
   \<and> hitRate (getStats (apply_op (OpGet ''k'' 1)
        (run_ops [OpSet [(''Alice'', [''123''])] ''k'' 0 0 0, OpGet ''x'' 1] (new_ContactCache no_config)))) = 50"
proof -
  have a: "totalQueries (getStats (run_ops [OpSet [(''Alice'', [''123''])] ''k'' 0 0 0] (new_ContactCache no_config))) = 0"
    by (simp add: run_ops_def getStats_def store_eval_simps)
  have b: "recomputes (OpGet ''k'' 1)
      (run_ops [OpSet [(''Alice'', [''123''])] ''k'' 0 0 0, OpGet ''x'' 1] (new_ContactCache no_config))"
    by (simp add: run_ops_def store_eval_simps)
  have c: "totalQueries (getStats (apply_op (OpGet ''k'' 1)
        (run_ops [OpSet [(''Alice'', [''123''])] ''k'' 0 0 0, OpGet ''x'' 1] (new_ContactCache no_config)))) = 2"
     "hits (getStats (apply_op (OpGet ''k'' 1)
        (run_ops [OpSet [(''Alice'', [''123''])] ''k'' 0 0 0, OpGet ''x'' 1] (new_ContactCache no_config)))) = 1"
    by (simp_all add: run_ops_def getStats_def store_eval_simps)
  from hitRate_percentage [of "[OpSet [(''Alice'', [''123''])] ''k'' 0 0 0]" no_config] a
  have first: "hitRate (getStats (run_ops [OpSet [(''Alice'', [''123''])] ''k'' 0 0 0] (new_ContactCache no_config))) = 0"
    by blast
  from hitRate_percentage [of "[OpSet [(''Alice'', [''123''])] ''k'' 0 0 0, OpGet ''x'' 1]" no_config "OpGet ''k'' 1"] b
  have "hitRate (getStats (apply_op (OpGet ''k'' 1)
        (run_ops [OpSet [(''Alice'', [''123''])] ''k'' 0 0 0, OpGet ''x'' 1] (new_ContactCache no_config)))) =
     (if totalQueries (getStats (apply_op (OpGet ''k'' 1)
        (run_ops [OpSet [(''Alice'', [''123''])] ''k'' 0 0 0, OpGet ''x'' 1] (new_ContactCache no_config)))) > 0
          then of_nat (hits (getStats (apply_op (OpGet ''k'' 1)
        (run_ops [OpSet [(''Alice'', [''123''])] ''k'' 0 0 0, OpGet ''x'' 1] (new_ContactCache no_config)))))
               / of_nat (totalQueries (getStats (apply_op (OpGet ''k'' 1)
        (run_ops [OpSet [(''Alice'', [''123''])] ''k'' 0 0 0, OpGet ''x'' 1] (new_ContactCache no_config))))) * 100
          else 0)"
    by blast
  then show ?thesis using first unfolding c by simp
qed

section \<open>Properties of the query layer\<close>

subsection \<open>C8: matching of phone numbers\<close>

lemma set_dedupe [simp]: "set (dedupe xs) = set xs"
  by (simp add: dedupe_def)

lemma list_ex_dedupe [simp]: "list_ex P (dedupe xs) = list_ex P xs"
  by (simp add: list_ex_iff)

lemma strip_dropWhile: "strip_formatting (dropWhile is_space s) = strip_formatting s"
  by (induction s) (auto simp: strip_formatting_def is_space_def is_digit_def)

lemma strip_rev: "strip_formatting (rev s) = rev (strip_formatting s)"
  by (simp add: strip_formatting_def rev_filter)

lemma strip_trim [simp]: "strip_formatting (trim s) = strip_formatting s"
  by (simp add: trim_def strip_rev strip_dropWhile)

lemma strip_idem [simp]: "strip_formatting (strip_formatting s) = strip_formatting s"
  by (simp add: strip_formatting_def)


lemma cleaned_in_normalize: "strip_formatting a \<in> set (normalizePhoneNumber a)"
  by (simp add: normalizePhoneNumber_def Let_def)

lemma drop2_in_normalize:
  "strip_formatting a = ''+1'' @ d \<Longrightarrow> d \<in> set (normalizePhoneNumber a)"
  by (simp add: normalizePhoneNumber_def Let_def startsWith_def)

lemma search_finds_iff:
  "search_finds a b = (\<exists>s \<in> set (normalizePhoneNumber a). phone_matches (strip_formatting b) s)"
  by (simp add: search_finds_def list_ex_iff)

lemma search_finds_refl: "search_finds a a"
  unfolding search_finds_iff using cleaned_in_normalize [of a] by (auto simp: phone_matches_def)

lemma search_finds_us:
  assumes "strip_formatting a = d \<or> strip_formatting a = ''+1'' @ d"
    and "strip_formatting b = d \<or> strip_formatting b = ''+1'' @ d"
  shows "search_finds a b"
proof -
  from assms(1) have "d \<in> set (normalizePhoneNumber a) \<or> strip_formatting a = ''+1'' @ d"
    using cleaned_in_normalize [of a] by auto
  then have d: "d \<in> set (normalizePhoneNumber a)"
    using drop2_in_normalize by blast
  from assms(2) have "phone_matches (strip_formatting b) d"
    by (auto simp: phone_matches_def)
  with d show ?thesis unfolding search_finds_iff by blast
qed

text \<open>
  C8, as stated, fails: matching is not symmetric. A search for \<open>5551234\<close> accepts the
  stored number \<open>+5551234\<close> (the search forms include the number with \<open>+\<close> in front),
  but a search for \<open>+5551234\<close> does not accept the stored \<open>5551234\<close>: no test strips a
  bare \<open>+\<close> from the search side.
\<close>

theorem phone_match_asymmetric:
  "search_finds ''5551234'' ''+5551234'' \<and> \<not> search_finds ''+5551234'' ''5551234''"
  by (simp add: search_finds_def normalizePhoneNumber_def strip_formatting_def is_digit_def
      startsWith_def dedupe_def phone_matches_def Let_def)

lemma startsWith_Cons: "startsWith s (c # p) = (\<exists>r. s = c # r \<and> startsWith r p)"
  by (cases s) (simp_all add: startsWith_def)

lemma plus_not_digit: "\<not> is_digit (CHR ''+'')"
  by (simp add: is_digit_def)

lemma digits_no_plus: "list_all is_digit d \<Longrightarrow> CHR ''+'' \<notin> set d"
  using plus_not_digit by (auto simp: list_all_iff)

lemma no_plus_startsWith:
  assumes "CHR ''+'' \<notin> set d"
  shows "\<not> startsWith d (CHR ''+'' # p)"
proof
  assume "startsWith d (CHR ''+'' # p)"
  then obtain r where "d = CHR ''+'' # r" unfolding startsWith_Cons by blast
  with assms show False by simp
qed

lemma normalize_digits:
  assumes "list_all is_digit d" and "strip_formatting a = d"
  shows "set (normalizePhoneNumber a) =
     {d} \<union> (if length d = 10 then {''+1'' @ d} else {}) \<union> (if length d > 0 then {''+'' @ d} else {})"
proof -
  note np = no_plus_startsWith [OF digits_no_plus [OF assms(1)]]
  have np1: "\<not> startsWith d ''+1''" and np2: "\<not> startsWith d ''+''"
    using np by blast+
  have "normalizePhoneNumber a =
      dedupe (([d] @ (if length d = 10 then [''+1'' @ d] else []))
                @ (if length d > 0 then [''+'' @ d] else []))"
    unfolding normalizePhoneNumber_def Let_def assms(2) using np1 np2
    by (cases d) (simp_all add: startsWith_def)
  then show ?thesis by (simp split: if_splits)
qed

lemma normalize_plus1:
  assumes "strip_formatting a = ''+1'' @ d"
  shows "set (normalizePhoneNumber a) = {''+1'' @ d, d}"
proof -
  have "normalizePhoneNumber a = dedupe [''+1'' @ d, d]"
    using assms by (simp add: normalizePhoneNumber_def Let_def startsWith_def)
  then show ?thesis by simp
qed

lemma match_bare:
  assumes "CHR ''+'' \<notin> set d"
  shows "phone_matches n d = (n = d \<or> n = ''+'' @ d \<or> n = ''+1'' @ d)"
proof -
  have "''+1'' @ n \<noteq> d"
  proof
    assume e: "''+1'' @ n = d"
    have "CHR ''+'' \<in> set (''+1'' @ n)" by simp
    with e assms show False by simp
  qed
  then show ?thesis by (simp add: phone_matches_def)
qed

lemma plain_no_double:
  assumes "plain_number n"
  shows "n \<noteq> c # CHR ''+'' # r" "n \<noteq> c # c' # CHR ''+'' # r"
proof -
  show "n \<noteq> c # CHR ''+'' # r"
  proof
    assume "n = c # CHR ''+'' # r"
    then have "CHR ''+'' \<in> set (tl n)" by simp
    with assms show False by (simp add: plain_number_def)
  qed
  show "n \<noteq> c # c' # CHR ''+'' # r"
  proof
    assume "n = c # c' # CHR ''+'' # r"
    then have "CHR ''+'' \<in> set (tl n)" by simp
    with assms show False by (simp add: plain_number_def)
  qed
qed

lemma match_plus1:
  assumes "plain_number n"
  shows "phone_matches n (''+1'' @ d) = (n = ''+1'' @ d \<or> n = d)"
  using plain_no_double [OF assms] by (simp add: phone_matches_def)

lemma match_plus:
  assumes "plain_number n" and "\<not> startsWith d ''1''"
  shows "phone_matches n (''+'' @ d) = (n = ''+'' @ d)"
proof -
  have "CHR ''1'' # n \<noteq> d"
  proof
    assume "CHR ''1'' # n = d"
    then have "startsWith d ''1''" by (auto simp: startsWith_def)
    with assms(2) show False by simp
  qed
  then show ?thesis using plain_no_double [OF assms(1)] by (simp add: phone_matches_def)
qed

lemma exists_forms:
  "(\<exists>s \<in> {d} \<union> (if c1 then {x} else {}) \<union> (if c2 then {y} else {}). P s)
   = (P d \<or> (c1 \<and> P x) \<or> (c2 \<and> P y))"
  by (cases c1; cases c2) auto

lemma matches_forms_plain:
  assumes digits: "list_all is_digit d" and no1: "\<not> startsWith d ''1''"
    and pl: "plain_number n"
    and A: "strip_formatting a = d \<or> strip_formatting a = ''+1'' @ d"
  shows "(\<exists>s \<in> set (normalizePhoneNumber a). phone_matches n s)
         = (n = d \<or> n = ''+'' @ d \<or> n = ''+1'' @ d)"
proof -
  have dp: "CHR ''+'' \<notin> set d" using digits by (rule digits_no_plus)
  note mb = match_bare [OF dp, of n]
  note m1 = match_plus1 [OF pl, of d]
  note mp = match_plus [OF pl no1]
  from A show ?thesis
  proof
    assume "strip_formatting a = d"
    from normalize_digits [OF digits this]
    have "(\<exists>s \<in> set (normalizePhoneNumber a). phone_matches n s)
        = (phone_matches n d \<or> (length d = 10 \<and> phone_matches n (''+1'' @ d))
            \<or> (length d > 0 \<and> phone_matches n (''+'' @ d)))"
      by (simp only: exists_forms)
    also have "\<dots> = (n = d \<or> n = ''+'' @ d \<or> n = ''+1'' @ d)"
      unfolding mb m1 mp by blast
    finally show ?thesis .
  next
    assume "strip_formatting a = ''+1'' @ d"
    from normalize_plus1 [OF this]
    have "(\<exists>s \<in> set (normalizePhoneNumber a). phone_matches n s)
        = (phone_matches n (''+1'' @ d) \<or> phone_matches n d)"
      by simp
    also have "\<dots> = (n = d \<or> n = ''+'' @ d \<or> n = ''+1'' @ d)"
      unfolding mb m1 by blast
    finally show ?thesis .
  qed
qed

lemma search_snapshot_forms:
  assumes digits: "list_all is_digit d" and no1: "\<not> startsWith d ''1''"
    and A: "strip_formatting a = d \<or> strip_formatting a = ''+1'' @ d"
    and B: "strip_formatting b = d \<or> strip_formatting b = ''+1'' @ d"
    and pl: "\<forall>(name, numbers) \<in> set allContacts. \<forall>n \<in> set numbers. plain_number (strip_formatting n)"
  shows "search_snapshot (normalizePhoneNumber a) allContacts
       = search_snapshot (normalizePhoneNumber b) allContacts"
proof -
  have "find (\<lambda>(name, numbers).
                list_ex (\<lambda>searchNumber. list_ex (\<lambda>num. phone_matches num searchNumber)
                                   (map strip_formatting numbers)) (normalizePhoneNumber a)) allContacts
      = find (\<lambda>(name, numbers).
                list_ex (\<lambda>searchNumber. list_ex (\<lambda>num. phone_matches num searchNumber)
                                   (map strip_formatting numbers)) (normalizePhoneNumber b)) allContacts"
  proof (rule find_cong [OF refl])
    fix x assume x: "x \<in> set allContacts"
    obtain name numbers where xe: "x = (name, numbers)" by (cases x)
    have "(\<exists>s \<in> set (normalizePhoneNumber a). phone_matches (strip_formatting n) s)
        = (\<exists>s \<in> set (normalizePhoneNumber b). phone_matches (strip_formatting n) s)"
      if "n \<in> set numbers" for n
    proof -
      have "plain_number (strip_formatting n)" using pl x xe that by auto
      from matches_forms_plain [OF digits no1 this A] matches_forms_plain [OF digits no1 this B]
      show ?thesis by simp
    qed
    then show "(case x of (name, numbers) \<Rightarrow>
                list_ex (\<lambda>searchNumber. list_ex (\<lambda>num. phone_matches num searchNumber)
                                   (map strip_formatting numbers)) (normalizePhoneNumber a))
        = (case x of (name, numbers) \<Rightarrow>
                list_ex (\<lambda>searchNumber. list_ex (\<lambda>num. phone_matches num searchNumber)
                                   (map strip_formatting numbers)) (normalizePhoneNumber b))"
      unfolding xe by (auto simp: list_ex_iff)
  qed
  then show ?thesis by (simp add: search_snapshot_def)
qed

lemma search_snapshot_Some_iff:
  "(search_snapshot searchNumbers allContacts \<noteq> None)
   = (\<exists>(name, numbers) \<in> set allContacts. \<exists>n \<in> set numbers. \<exists>s \<in> set searchNumbers.
        phone_matches (strip_formatting n) s)"
  by (auto simp: search_snapshot_def find_None_iff list_ex_iff)



text \<open>
  C8, amended. Every number matches itself, and the two US forms of a number, \<open>d\<close> and
  \<open>+1d\<close> under any formatting, match each other in both directions. For a number \<open>d\<close>
  of digits that does not begin with 1, and a snapshot whose stored numbers carry \<open>+\<close> in
  front only, the cached search gives the same answer for every input of the form \<open>d\<close>
  or \<open>+1d\<close>; and it gives an answer as soon as some contact holds the number in one of
  the two forms.
\<close>

theorem phone_forms_equivalent:
  "search_finds a a
   \<and> ((strip_formatting a = d \<or> strip_formatting a = ''+1'' @ d)
        \<and> (strip_formatting b = d \<or> strip_formatting b = ''+1'' @ d)
        \<longrightarrow> search_finds a b \<and> search_finds b a)
   \<and> ((strip_formatting a = d \<or> strip_formatting a = ''+1'' @ d)
        \<and> (strip_formatting b = d \<or> strip_formatting b = ''+1'' @ d)
        \<and> list_all is_digit d \<and> \<not> startsWith d ''1''
        \<and> (\<forall>(name, numbers) \<in> set allContacts. \<forall>n \<in> set numbers.
               plain_number (strip_formatting n))
        \<longrightarrow> search_snapshot (normalizePhoneNumber a) allContacts
            = search_snapshot (normalizePhoneNumber b) allContacts)
   \<and> ((strip_formatting a = d \<or> strip_formatting a = ''+1'' @ d)
        \<and> (name, numbers) \<in> set allContacts \<and> n \<in> set numbers
        \<and> (strip_formatting n = d \<or> strip_formatting n = ''+1'' @ d)
        \<longrightarrow> search_snapshot (normalizePhoneNumber a) allContacts \<noteq> None)"
proof (intro conjI impI)
  show "search_finds a a" by (rule search_finds_refl)
next
  assume "(strip_formatting a = d \<or> strip_formatting a = ''+1'' @ d)
        \<and> (strip_formatting b = d \<or> strip_formatting b = ''+1'' @ d)"
  then show "search_finds a b" "search_finds b a"
    using search_finds_us by blast+
next
  assume "(strip_formatting a = d \<or> strip_formatting a = ''+1'' @ d)
        \<and> (strip_formatting b = d \<or> strip_formatting b = ''+1'' @ d)
        \<and> list_all is_digit d \<and> \<not> startsWith d ''1''
        \<and> (\<forall>(name, numbers) \<in> set allContacts. \<forall>n \<in> set numbers.
               plain_number (strip_formatting n))"
  then show "search_snapshot (normalizePhoneNumber a) allContacts
            = search_snapshot (normalizePhoneNumber b) allContacts"
    using search_snapshot_forms by blast
next
  assume h: "(strip_formatting a = d \<or> strip_formatting a = ''+1'' @ d)
        \<and> (name, numbers) \<in> set allContacts \<and> n \<in> set numbers
        \<and> (strip_formatting n = d \<or> strip_formatting n = ''+1'' @ d)"
  then have "search_finds a n" using search_finds_us by blast
  then show "search_snapshot (normalizePhoneNumber a) allContacts \<noteq> None"
    unfolding search_snapshot_Some_iff search_finds_iff using h by blast
qed

theorem phone_forms_equivalent_witness:
  "search_finds ''+15551234567'' ''(555) 123-4567''
   \<and> search_finds ''(555) 123-4567'' ''+15551234567''
   \<and> search_snapshot (normalizePhoneNumber ''+15551234567'') us_snapshot = Some ''Bob''
   \<and> search_snapshot (normalizePhoneNumber ''5551234567'') us_snapshot = Some ''Bob''
   \<and> search_snapshot (normalizePhoneNumber ''(555) 123-4567'') us_snapshot = Some ''Bob''"
proof -
  have s: "strip_formatting ''+15551234567'' = ''+1'' @ ''5551234567''"
     "strip_formatting ''(555) 123-4567'' = ''5551234567''"
     "strip_formatting ''5551234567'' = ''5551234567''"
    by (simp_all add: strip_formatting_def is_digit_def)
  have dg: "list_all is_digit ''5551234567''" "\<not> startsWith ''5551234567'' ''1''"
    by (simp_all add: is_digit_def startsWith_def)
  have pl: "\<forall>(name, numbers) \<in> set us_snapshot. \<forall>n \<in> set numbers. plain_number (strip_formatting n)"
    by (simp add: us_snapshot_def plain_number_def strip_formatting_def is_digit_def)
  have direct: "search_snapshot (normalizePhoneNumber ''5551234567'') us_snapshot = Some ''Bob''"
    by (simp add: search_snapshot_def us_snapshot_def normalizePhoneNumber_def strip_formatting_def
        is_digit_def startsWith_def dedupe_def phone_matches_def Let_def)
  note inst1 = phone_forms_equivalent [where a = "''+15551234567''" and b = "''(555) 123-4567''"
      and d = "''5551234567''" and allContacts = us_snapshot]
  note inst2 = phone_forms_equivalent [where a = "''+15551234567''" and b = "''5551234567''"
      and d = "''5551234567''" and allContacts = us_snapshot]
  have m: "search_finds ''+15551234567'' ''(555) 123-4567''
     \<and> search_finds ''(555) 123-4567'' ''+15551234567''"
    using inst1 s by blast
  have e1: "search_snapshot (normalizePhoneNumber ''+15551234567'') us_snapshot
      = search_snapshot (normalizePhoneNumber ''(555) 123-4567'') us_snapshot"
    using inst1 s dg pl by blast
  have e2: "search_snapshot (normalizePhoneNumber ''+15551234567'') us_snapshot
      = search_snapshot (normalizePhoneNumber ''5551234567'') us_snapshot"
    using inst2 s dg pl by blast
  show ?thesis using m e1 e2 direct by simp
qed

subsection \<open>C9: denied access and unreadable records\<close>

lemma jxa_all_numbers_skip:
  "pname bad = None \<or> pphones bad = None \<Longrightarrow>
   jxa_all_numbers (ps @ bad # qs) acc = jxa_all_numbers (ps @ qs) acc"
  by (induction ps arbitrary: acc) (auto split: option.splits)

lemma jxa_find_number_skip:
  "pname bad = None \<or> pphones bad = None \<Longrightarrow>
   jxa_find_number (ps @ bad # qs) n = jxa_find_number (ps @ qs) n"
  by (induction ps) (auto split: option.splits)

lemma phone_scan_skip:
  "pname bad = None \<or> pphones bad = None \<Longrightarrow>
   phone_scan (ps @ bad # qs) fs = phone_scan (ps @ qs) fs"
  by (induction ps) (auto split: option.splits)

text \<open>
  C9, as stated, fails for \<open>findContactByPhone\<close>: with access denied it answers \<open>null\<close>
  and raises nothing.
\<close>

theorem phone_lookup_hides_denied_access:
  "\<not> access denied_dir
   \<and> findContactByPhone denied_dir ''5551234'' 0 0 0 0 0 None = (Inr None, None, 0)"
  by (simp add: findContactByPhone_def findContactByPhoneOptimized_def validatePhoneNumber_def
      checkContactsAccess_def denied_dir_def open_dir_def trim_def is_space_def is_digit_def)

text \<open>
  C9, amended. With access denied, \<open>getAllNumbers\<close> (when no live snapshot is cached)
  and \<open>findNumber\<close> (for a valid name) fail with an error that carries the access
  message; \<open>findContactByPhone\<close> catches the error and answers \<open>null\<close>, leaving the cache
  as it was. A contact whose name or phones cannot be read changes the outcome of none of
  the three queries: it is skipped.
\<close>

theorem access_denied_outcomes:
  "(\<not> access dir \<and> fst (get ''allContacts'' t_get (getContactCache g)) = None \<longrightarrow>
      fst (getAllNumbers dir t_get t_set t_ev1 t_ev2 g)
        = Inl (Error (''Error accessing contacts: '' @ access_message)))
   \<and> (\<not> access dir \<and> validateContactName name = Inr sanitizedName \<longrightarrow>
      fst (findNumber dir name t_fuzzy t_get t_set t_ev1 t_ev2 g)
        = Inl (Error (''Error finding contact: '' @ access_message)))
   \<and> (\<not> access dir \<longrightarrow>
      findContactByPhone dir phoneNumber t_search t_merge t_set t_ev1 t_ev2 g = (Inr None, g, 0))
   \<and> (pname bad = None \<or> pphones bad = None \<longrightarrow>
      getAllNumbers (dir\<lparr>people := ps @ bad # qs\<rparr>) t_get t_set t_ev1 t_ev2 g
        = getAllNumbers (dir\<lparr>people := ps @ qs\<rparr>) t_get t_set t_ev1 t_ev2 g
      \<and> findNumber (dir\<lparr>people := ps @ bad # qs\<rparr>) name t_fuzzy t_get t_set t_ev1 t_ev2 g
        = findNumber (dir\<lparr>people := ps @ qs\<rparr>) name t_fuzzy t_get t_set t_ev1 t_ev2 g
      \<and> findContactByPhone (dir\<lparr>people := ps @ bad # qs\<rparr>) phoneNumber t_search t_merge t_set t_ev1 t_ev2 g
        = findContactByPhone (dir\<lparr>people := ps @ qs\<rparr>) phoneNumber t_search t_merge t_set t_ev1 t_ev2 g)"
proof (intro conjI impI)
  assume "\<not> access dir \<and> fst (get ''allContacts'' t_get (getContactCache g)) = None"
  then show "fst (getAllNumbers dir t_get t_set t_ev1 t_ev2 g)
        = Inl (Error (''Error accessing contacts: '' @ access_message))"
    by (auto simp: getAllNumbers_def checkContactsAccess_def wrap_error_def split: prod.splits)
next
  assume "\<not> access dir \<and> validateContactName name = Inr sanitizedName"
  then show "fst (findNumber dir name t_fuzzy t_get t_set t_ev1 t_ev2 g)
        = Inl (Error (''Error finding contact: '' @ access_message))"
    by (simp add: findNumber_def checkContactsAccess_def wrap_error_def)
next
  assume "\<not> access dir"
  then show "findContactByPhone dir phoneNumber t_search t_merge t_set t_ev1 t_ev2 g = (Inr None, g, 0)"
    by (simp add: findContactByPhone_def findContactByPhoneOptimized_def checkContactsAccess_def
        split: sum.splits)
next
  assume b: "pname bad = None \<or> pphones bad = None"
  show "getAllNumbers (dir\<lparr>people := ps @ bad # qs\<rparr>) t_get t_set t_ev1 t_ev2 g
        = getAllNumbers (dir\<lparr>people := ps @ qs\<rparr>) t_get t_set t_ev1 t_ev2 g"
    by (simp add: getAllNumbers_def checkContactsAccess_def getAllNumbersAppleScript_def
        jxa_all_numbers_skip [OF b] Let_def split: prod.splits option.splits sum.splits)
  have gan: "getAllNumbers (dir\<lparr>people := ps @ bad # qs\<rparr>) = getAllNumbers (dir\<lparr>people := ps @ qs\<rparr>)"
    by (intro ext) (simp add: getAllNumbers_def checkContactsAccess_def getAllNumbersAppleScript_def
        jxa_all_numbers_skip [OF b] Let_def split: prod.splits option.splits sum.splits)
  have fz: "findNumberFuzzyFallback (dir\<lparr>people := ps @ bad # qs\<rparr>)
          = findNumberFuzzyFallback (dir\<lparr>people := ps @ qs\<rparr>)"
    unfolding findNumberFuzzyFallback_def gan by (rule refl)
  show "findNumber (dir\<lparr>people := ps @ bad # qs\<rparr>) name t_fuzzy t_get t_set t_ev1 t_ev2 g
        = findNumber (dir\<lparr>people := ps @ qs\<rparr>) name t_fuzzy t_get t_set t_ev1 t_ev2 g"
    by (simp add: findNumber_def checkContactsAccess_def fz jxa_find_number_skip [OF b] Let_def
        split: prod.splits option.splits sum.splits)
  show "findContactByPhone (dir\<lparr>people := ps @ bad # qs\<rparr>) phoneNumber t_search t_merge t_set t_ev1 t_ev2 g
        = findContactByPhone (dir\<lparr>people := ps @ qs\<rparr>) phoneNumber t_search t_merge t_set t_ev1 t_ev2 g"
    by (simp add: findContactByPhone_def findContactByPhoneOptimized_def checkContactsAccess_def
        phone_scan_skip [OF b] Let_def split: prod.splits option.splits sum.splits)
qed

lemma denied_dir_eval: "\<not> access denied_dir"
  by (simp add: denied_dir_def open_dir_def)

lemma fresh_cache_miss: "fst (get ''allContacts'' t (getContactCache None)) = None"
  by (simp add: getContactCache_def get_def new_ContactCache_def Let_def merge_config_def
      no_config_def DEFAULT_CONFIG_def startCleanupTimer_def)

lemma validate_bob: "validateContactName ''Bob'' = Inr ''Bob''"
  by (simp add: validateContactName_def trim_def is_space_def Let_def)

lemma unreadable_eval: "pname unreadable = None \<or> pphones unreadable = None"
  by (simp add: unreadable_def)

lemma open_dir_people: "open_dir = open_dir\<lparr>people := [] @ unreadable # [bob]\<rparr>"
  by (simp add: open_dir_def)

lemma enumerate_bob:
  "fst (getAllNumbers (open_dir\<lparr>people := [] @ [bob]\<rparr>) 0 0 0 0 None) = Inr [(''Bob'', [''555-1234''])]"
proof -
  have j: "jxa_all_numbers [bob] [] = [(''Bob'', [''555-1234''])]"
    by (simp add: bob_def obj_assign_def is_array_index_def is_digit_def)
  obtain r c where g: "get ''allContacts'' 0 (getContactCache None) = (r, c)"
    by (cases "get ''allContacts'' 0 (getContactCache None)")
  with fresh_cache_miss [of 0] have r: "r = None" by simp
  show ?thesis
    by (simp add: getAllNumbers_def g r checkContactsAccess_def open_dir_def j Let_def
        del: jxa_all_numbers.simps)
qed

theorem access_denied_outcomes_witness:
  "fst (getAllNumbers denied_dir 0 0 0 0 None)
     = Inl (Error (''Error accessing contacts: '' @ access_message))
   \<and> fst (findNumber denied_dir ''Bob'' 0 0 0 0 0 None)
     = Inl (Error (''Error finding contact: '' @ access_message))
   \<and> findContactByPhone denied_dir ''5551234'' 0 0 0 0 0 None = (Inr None, None, 0)
   \<and> fst (getAllNumbers open_dir 0 0 0 0 None) = Inr [(''Bob'', [''555-1234''])]"
proof -
  note inst = access_denied_outcomes [where dir = denied_dir and g = None and name = "''Bob''"
      and sanitizedName = "''Bob''" and phoneNumber = "''5551234''" and bad = unreadable
      and t_get = 0 and t_set = 0 and ?t_ev1.0 = 0 and ?t_ev2.0 = 0 and t_fuzzy = 0
      and t_search = 0 and t_merge = 0]
  note inst2 = access_denied_outcomes [where dir = open_dir and g = None and bad = unreadable
      and ps = "[]" and qs = "[bob]" and t_get = 0 and t_set = 0 and ?t_ev1.0 = 0 and ?t_ev2.0 = 0]
  have a: "fst (getAllNumbers denied_dir 0 0 0 0 None)
     = Inl (Error (''Error accessing contacts: '' @ access_message))"
    using inst [THEN conjunct1] denied_dir_eval fresh_cache_miss [of 0] by simp
  have b: "fst (findNumber denied_dir ''Bob'' 0 0 0 0 0 None)
     = Inl (Error (''Error finding contact: '' @ access_message))"
    using inst [THEN conjunct2, THEN conjunct1] denied_dir_eval validate_bob by simp
  have c: "findContactByPhone denied_dir ''5551234'' 0 0 0 0 0 None = (Inr None, None, 0)"
    using inst [THEN conjunct2, THEN conjunct2, THEN conjunct1] denied_dir_eval by simp
  have "getAllNumbers (open_dir\<lparr>people := [] @ unreadable # [bob]\<rparr>) 0 0 0 0 None
      = getAllNumbers (open_dir\<lparr>people := [] @ [bob]\<rparr>) 0 0 0 0 None"
    using inst2 [THEN conjunct2, THEN conjunct2, THEN conjunct2, THEN mp, OF unreadable_eval]
    by (rule conjunct1)
  then have e: "fst (getAllNumbers open_dir 0 0 0 0 None) = Inr [(''Bob'', [''555-1234''])]"
    using enumerate_bob open_dir_people by simp
  show ?thesis using a b c e by simp
qed

subsection \<open>C7: write-through of a phone search\<close>




lemma config_set_cache [simp]: "config (set_cache d key ts e1 e2 c) = config c"
  by (simp add: set_cache_def Let_def updateStats_def evictLeastRecentlyUsed_def split: option.splits)
































end
